theory Spec2Isabelle
  imports Main "HOL-Library.AList"
begin

section \<open>The peer connection lifecycle manager (src/service/peer.js)\<close>

text \<open>
  A shallow embedding of the class \<^verbatim>\<open>PeerService\<close>. The object's fields are a record;
  every method takes the record and returns the updated one. The world around the object
  is part of the same record: the pending timers of the event loop with a clock, the
  tracking-info objects that timer closures hold by reference, and a time-stamped trace of
  everything the object does to the outside (events emitted to the consumer, calls on the
  browser's connection object, timers armed and cleared, the credential fetch).

  What the browser and the network answer is not in the source; it is a parameter
  (\<open>env\<close>) of every method that waits for such an answer. A method runs from call to return
  in one step; the three that the properties need to stop in the middle
  (\<^verbatim>\<open>setRemoteDescription\<close>, \<^verbatim>\<open>handleConnectionFailure\<close> and the backoff closure) are also
  given in two halves, before and after their wait, and are defined as the two in a row.

  Left out: \<^verbatim>\<open>waitForStableState\<close> and the three getters, which write no field of the
  object, and the console.
\<close>

subsection \<open>Data\<close>

type_synonym candidate = string
type_synonym media_stream = string  \<comment> \<open>a MediaStream object, named by its \<^verbatim>\<open>id\<close>\<close>

record description =
  dtype :: string
  sdp :: string

datatype signaling =
  Stable | HaveLocalOffer | HaveRemoteOffer | HaveLocalPranswer | HaveRemotePranswer
  | SignalingClosed

datatype ice_state =
  IceNew | IceChecking | IceConnected | IceCompleted | IceFailed | IceDisconnected | IceClosed

datatype conn_state =
  ConnNew | ConnConnecting | ConnConnected | ConnDisconnected | ConnFailed | ConnClosed

datatype config_kind = Turn | Stun

record ice_server =
  urls :: "string list"
  username :: string
  credential :: string

record rtc_config =
  iceServers :: "ice_server list"
  iceCandidatePoolSize :: nat
  bundlePolicy :: string
  rtcpMuxPolicy :: string

text \<open>
  The connection object (\<^verbatim>\<open>RTCPeerConnection\<close>): its identity, the attributes the class
  reads, and one flag per handler slot that \<^verbatim>\<open>setupPeerEvents\<close> fills and
  \<^verbatim>\<open>cleanup\<close> nulls.
\<close>

record rtc =
  pid :: nat
  config :: rtc_config
  signalingState :: signaling
  iceConnectionState :: ice_state
  connectionState :: conn_state
  remoteDescription :: "description option"
  ontrack :: bool
  onicecandidate :: bool
  oniceconnectionstatechange :: bool
  onconnectionstatechange :: bool
  onsignalingstatechange :: bool

record tracking_info =
  hasAudio :: bool
  hasVideo :: bool
  emitted :: bool
  timeoutId :: "nat option"
  stream :: media_stream

text \<open>The five closures the class hands to \<^verbatim>\<open>setTimeout\<close>, by source line.\<close>

datatype callback =
    IceCheckingTimeout      \<comment> \<open>line 342, 10000 ms\<close>
  | DisconnectedGrace       \<comment> \<open>line 357, 3000 ms\<close>
  | TrackDebounce nat       \<comment> \<open>line 425, 1000 ms; closes over one tracking-info object\<close>
  | ReconnectAttempt        \<comment> \<open>line 528, the backoff delay\<close>
  | RetryFailure            \<comment> \<open>line 547, 1000 ms\<close>

record timer =
  tid :: nat
  due :: nat
  callback :: callback

datatype js_error = JsError string | BrowserError

datatype event =
    ErrorEvent string string "js_error option"   \<comment> \<open>type, message, error\<close>
  | IceConnectedEvent
  | ReconnectCall
  | RemoteStream media_stream
  | MediaSourceSwitched

datatype effect =
    Emit event
  | SocketEmitCandidate candidate string "string option"
  | Fetch
  | RtcNew nat rtc_config
  | RtcClose rtc
  | RtcSetRemote nat description
  | RtcAddIceCandidate nat candidate
  | RtcCreateOffer nat
  | RtcCreateAnswer nat
  | RtcRemoveTrack nat string
  | RtcAddTrack nat string
  | SetTimeout nat nat callback
  | ClearTimeout nat

record service =
  peer :: "rtc option"
  roomId :: "string option"
  socket :: bool
  reconnectAttempts :: nat
  maxReconnectAttempts :: nat
  reconnectDelay :: nat
  isReconnecting :: bool
  isSettingRemoteDescription :: bool
  senders :: "(string \<times> string) list"
  pendingCandidates :: "candidate list"
  streamTracking :: "(media_stream \<times> nat) list"
  remotePeerId :: "string option"
  lastUsedConfig :: "config_kind option"
  iceTimeout :: "nat option"
  infos :: "nat \<Rightarrow> tracking_info"
  nextInfo :: nat
  timers :: "timer list"
  nextTimer :: nat
  nextPid :: nat
  now :: nat
  trace :: "(nat \<times> effect) list"

text \<open>The answers of the browser and of the credential endpoint.\<close>

record turn_credentials =
  cred_urls :: "string list"
  cred_username :: string
  cred_credential :: string

datatype turn_response =
    FetchRejected
  | HttpNotOk string
  | JsonRejected
  | Credentials turn_credentials

record env =
  fetchTurn :: turn_response
  rtcConstruct :: "rtc_config \<Rightarrow> bool"
  rtcSetRemote :: "(signaling \<times> description option) option"
  rtcAddCandidate :: "candidate \<Rightarrow> bool"
  rtcOffer :: "(description \<times> signaling) option"
  rtcAnswer :: "(description \<times> signaling) option"
  rtcAddTrackOk :: "string \<Rightarrow> bool"

text \<open>A method that can throw returns the state it leaves behind either way.\<close>

datatype outcome = Done service | Threw js_error service

subsection \<open>The constructor\<close>

definition constructor :: service where
  "constructor =
     \<lparr> peer = None, roomId = None, socket = False,
       reconnectAttempts = 0, maxReconnectAttempts = 5, reconnectDelay = 1000,
       isReconnecting = False, isSettingRemoteDescription = False,
       senders = [], pendingCandidates = [], streamTracking = [],
       remotePeerId = None, lastUsedConfig = None, iceTimeout = None,
       infos = (\<lambda>_. \<lparr> hasAudio = False, hasVideo = False, emitted = False,
                        timeoutId = None, stream = [] \<rparr>),
       nextInfo = 0, timers = [], nextTimer = 1, nextPid = 0, now = 0, trace = [] \<rparr>"

subsection \<open>The event emitter, the timers and JavaScript truthiness\<close>

definition perform :: "effect \<Rightarrow> service \<Rightarrow> service" where
  "perform e s = s\<lparr> trace := trace s @ [(now s, e)] \<rparr>"

definition emit :: "event \<Rightarrow> service \<Rightarrow> service" where
  "emit ev s = perform (Emit ev) s"

definition setTimeout :: "callback \<Rightarrow> nat \<Rightarrow> service \<Rightarrow> nat \<times> service" where
  "setTimeout c delay s =
     (nextTimer s,
      perform (SetTimeout (nextTimer s) delay c)
        (s\<lparr> timers := timers s @ [\<lparr> tid = nextTimer s, due = now s + delay, callback = c \<rparr>],
            nextTimer := Suc (nextTimer s) \<rparr>))"

definition clearTimeout :: "nat \<Rightarrow> service \<Rightarrow> service" where
  "clearTimeout t s = perform (ClearTimeout t) (s\<lparr> timers := filter (\<lambda>x. tid x \<noteq> t) (timers s) \<rparr>)"

text \<open>A timer handle is truthy unless it is null, undefined or 0; a string unless empty.\<close>

definition truthy_id :: "nat option \<Rightarrow> bool" where
  "truthy_id h = (case h of None \<Rightarrow> False | Some t \<Rightarrow> t \<noteq> 0)"

definition truthy_str :: "string option \<Rightarrow> bool" where
  "truthy_str h = (case h of None \<Rightarrow> False | Some t \<Rightarrow> t \<noteq> [])"

definition clear_if_set :: "nat option \<Rightarrow> service \<Rightarrow> service" where
  "clear_if_set h s = (if truthy_id h then clearTimeout (the h) s else s)"

subsection \<open>cleanup (lines 588-615)\<close>

definition clear_tracking_timers :: "service \<Rightarrow> service" where
  "clear_tracking_timers s =
     fold (\<lambda>(sid, a) s'. clear_if_set (timeoutId (infos s' a)) s') (streamTracking s) s"

definition detach :: "rtc \<Rightarrow> rtc" where
  "detach p = p\<lparr> ontrack := False, onicecandidate := False,
                 oniceconnectionstatechange := False, onconnectionstatechange := False,
                 onsignalingstatechange := False \<rparr>"

definition close_peer :: "service \<Rightarrow> service" where
  "close_peer s =
     (case peer s of
        None \<Rightarrow> s
      | Some p \<Rightarrow> (perform (RtcClose (detach p)) (s\<lparr> remotePeerId := None \<rparr>))\<lparr> peer := None \<rparr>)"

definition cleanup :: "service \<Rightarrow> service" where
  "cleanup s =
     (close_peer ((clear_tracking_timers s)\<lparr> streamTracking := [] \<rparr>))
       \<lparr> senders := [], pendingCandidates := [], roomId := None,
         isReconnecting := False, isSettingRemoteDescription := False,
         reconnectAttempts := 0 \<rparr>"

subsection \<open>Candidates (lines 42-59, 154-165)\<close>

definition has_remote :: "service \<Rightarrow> bool" where
  "has_remote s =
     (case peer s of
        None \<Rightarrow> False
      | Some p \<Rightarrow> (case remoteDescription p of None \<Rightarrow> False | Some d \<Rightarrow> dtype d \<noteq> []))"

definition addIceCandidate :: "env \<Rightarrow> candidate \<Rightarrow> service \<Rightarrow> service" where
  "addIceCandidate e c s =
     (if has_remote s then
        (let s1 = perform (RtcAddIceCandidate (pid (the (peer s))) c) s
         in if rtcAddCandidate e c then s1
            else emit (ErrorEvent ''ice-candidate'' ''Error adding ICE candidate''
                         (Some BrowserError)) s1)
      else s\<lparr> pendingCandidates := pendingCandidates s @ [c] \<rparr>)"

text \<open>
  In \<^verbatim>\<open>addIceCandidate\<close> the effect records that the candidate was handed over; the
  answer \<open>rtcAddCandidate\<close> says whether \<^verbatim>\<open>new RTCIceCandidate\<close> and the browser's
  \<^verbatim>\<open>addIceCandidate\<close> then went through or threw.

  The \<^verbatim>\<open>while\<close> loop of \<^verbatim>\<open>processPendingCandidates\<close> shifts the head off the queue
  and hands it to \<^verbatim>\<open>addIceCandidate\<close>, which puts it back when there is no remote
  description: the loop then never ends, and the model returns \<open>None\<close>.
\<close>

partial_function (option) drain :: "env \<Rightarrow> service \<Rightarrow> service option" where
  "drain e s =
     (case pendingCandidates s of
        [] \<Rightarrow> Some s
      | c # cs \<Rightarrow> drain e (addIceCandidate e c (s\<lparr> pendingCandidates := cs \<rparr>)))"

definition processPendingCandidates :: "env \<Rightarrow> service \<Rightarrow> service option" where
  "processPendingCandidates e s = (if pendingCandidates s = [] then Some s else drain e s)"

subsection \<open>Constructing the connection (lines 194-298, 305-384)\<close>

definition new_rtc :: "nat \<Rightarrow> rtc_config \<Rightarrow> rtc" where
  "new_rtc i c =
     \<lparr> pid = i, config = c, signalingState = Stable, iceConnectionState = IceNew,
       connectionState = ConnNew, remoteDescription = None,
       ontrack = False, onicecandidate = False, oniceconnectionstatechange = False,
       onconnectionstatechange = False, onsignalingstatechange = False \<rparr>"

definition setupPeerEvents :: "service \<Rightarrow> service" where
  "setupPeerEvents s =
     (case peer s of
        None \<Rightarrow> s
      | Some p \<Rightarrow>
          s\<lparr> peer := Some (p\<lparr> ontrack := True, onicecandidate := True,
                               oniceconnectionstatechange := True,
                               onconnectionstatechange := True,
                               onsignalingstatechange := True \<rparr>) \<rparr>)"

definition createPeerConnection :: "env \<Rightarrow> rtc_config \<Rightarrow> service \<Rightarrow> outcome" where
  "createPeerConnection e c s =
     (if iceServers c = [] then
        Threw (JsError ''Invalid configuration: iceServers array is required'') s
      else if rtcConstruct e c then
        Done (setupPeerEvents
                ((perform (RtcNew (nextPid s) c) s)
                   \<lparr> peer := Some (new_rtc (nextPid s) c), nextPid := Suc (nextPid s) \<rparr>))
      else Threw BrowserError s)"

definition stun_config :: rtc_config where
  "stun_config =
     \<lparr> iceServers =
         [ \<lparr> urls = [''stun:stun1.l.google.com:19302'', ''stun:stun2.l.google.com:19302'',
                      ''stun:stun3.l.google.com:19302'', ''stun:stun4.l.google.com:19302'',
                      ''stun:stun.cloudflare.com:3478''],
             username = [], credential = [] \<rparr>,
           \<lparr> urls = [''turn:openrelay.metered.ca:80''],
             username = ''openrelayproject'', credential = ''openrelayproject'' \<rparr>,
           \<lparr> urls = [''turn:openrelay.metered.ca:443''],
             username = ''openrelayproject'', credential = ''openrelayproject'' \<rparr> ],
       iceCandidatePoolSize = 10, bundlePolicy = ''max-bundle'', rtcpMuxPolicy = ''require'' \<rparr>"

definition turn_config :: "turn_credentials \<Rightarrow> rtc_config" where
  "turn_config cr =
     \<lparr> iceServers = [ \<lparr> urls = cred_urls cr, username = cred_username cr,
                         credential = cred_credential cr \<rparr> ],
       iceCandidatePoolSize = 10, bundlePolicy = ''max-bundle'', rtcpMuxPolicy = ''require'' \<rparr>"

definition initializeWithStun :: "env \<Rightarrow> service \<Rightarrow> outcome" where
  "initializeWithStun e s = createPeerConnection e stun_config s"

text \<open>
  \<^verbatim>\<open>initializeWithTurn\<close> waits for the credential endpoint. The request is what runs
  before the wait, the response what runs once the endpoint has answered; the method is the
  two in a row.
\<close>

definition initializeWithTurn_request :: "service \<Rightarrow> service" where
  "initializeWithTurn_request s = perform Fetch s"

definition turn_failed :: "js_error \<Rightarrow> service \<Rightarrow> outcome" where
  "turn_failed err s =
     Threw err (emit (ErrorEvent ''turn'' ''Failed to initialize TURN connection'' (Some err)) s)"

definition initializeWithTurn_response :: "env \<Rightarrow> service \<Rightarrow> outcome" where
  "initializeWithTurn_response e s =
     (case fetchTurn e of
        FetchRejected \<Rightarrow> turn_failed BrowserError s
      | HttpNotOk txt \<Rightarrow> turn_failed (JsError (''Failed to fetch TURN credentials: '' @ txt)) s
      | JsonRejected \<Rightarrow> turn_failed BrowserError s
      | Credentials cr \<Rightarrow>
          if cred_urls cr = [] \<or> cred_username cr = [] \<or> cred_credential cr = [] then
            turn_failed (JsError ''Invalid TURN credentials format'') s
          else
            (case createPeerConnection e (turn_config cr) s of
               Done s' \<Rightarrow> Done s'
             | Threw err s' \<Rightarrow> turn_failed err s'))"

definition initializeWithTurn :: "env \<Rightarrow> service \<Rightarrow> outcome" where
  "initializeWithTurn e s = initializeWithTurn_response e (initializeWithTurn_request s)"

definition initializeConnection :: "env \<Rightarrow> service \<Rightarrow> outcome" where
  "initializeConnection e s =
     (case initializeWithStun e s of
        Done s' \<Rightarrow> Done s'
      | Threw err s' \<Rightarrow> initializeWithTurn e s')"

definition initializePeer :: "env \<Rightarrow> string option \<Rightarrow> service \<Rightarrow> outcome" where
  "initializePeer e room s =
     initializeConnection e
       ((cleanup s)\<lparr> roomId := room, reconnectAttempts := 0, isReconnecting := False \<rparr>)"

definition setRemotePeer :: "string option \<Rightarrow> service \<Rightarrow> service" where
  "setRemotePeer peerId s = s\<lparr> remotePeerId := peerId \<rparr>"

definition setSocket :: "service \<Rightarrow> service" where
  "setSocket s = s\<lparr> socket := True \<rparr>"

subsection \<open>Connection recovery (lines 482-550)\<close>

text \<open>
  A method stopped at a wait: either it has returned, or it is suspended with the locals
  it will need when it resumes.
\<close>

datatype 'k paused = Returned service | Paused 'k service

definition backoff_delay :: "nat \<Rightarrow> nat" where
  "backoff_delay n = min (1000 * 2 ^ (n - 1)) 10000"

text \<open>Lines 513-549: the bound check, and otherwise the next backoff timer.\<close>

definition schedule_reconnect :: "service \<Rightarrow> service" where
  "schedule_reconnect s =
     (if reconnectAttempts s \<ge> maxReconnectAttempts s then
        emit (ErrorEvent ''reconnect'' ''Connection failed. Please refresh and try again.'' None) s
      else
        (let s1 = s\<lparr> isReconnecting := True, reconnectAttempts := reconnectAttempts s + 1 \<rparr>
         in snd (setTimeout ReconnectAttempt (backoff_delay (reconnectAttempts s1)) s1)))"

text \<open>Lines 483-496: up to the wait for the credential endpoint.\<close>

definition handleConnectionFailure_begin ::
  "service \<Rightarrow> (string option \<times> string option) paused" where
  "handleConnectionFailure_begin s =
     (if isReconnecting s then Returned s
      else if reconnectAttempts s = 0 \<and> lastUsedConfig s \<noteq> Some Turn then
        (let s1 = s\<lparr> isReconnecting := True, reconnectAttempts := reconnectAttempts s + 1 \<rparr>;
             currentRemotePeer = remotePeerId s1;
             currentRoom = roomId s1
         in Paused (currentRemotePeer, currentRoom) (initializeWithTurn_request (cleanup s1)))
      else Returned (schedule_reconnect s))"

text \<open>Lines 496-512 and on: from the endpoint's answer to the return.\<close>

definition handleConnectionFailure_resume ::
  "env \<Rightarrow> string option \<times> string option \<Rightarrow> service \<Rightarrow> service" where
  "handleConnectionFailure_resume e saved s =
     (case initializeWithTurn_response e s of
        Done s1 \<Rightarrow>
          (let s2 = s1\<lparr> lastUsedConfig := Some Turn, remotePeerId := fst saved,
                        roomId := snd saved \<rparr>;
               s3 = (if truthy_str (remotePeerId s2) \<and> truthy_str (roomId s2)
                     then emit ReconnectCall s2 else s2)
           in s3\<lparr> isReconnecting := False \<rparr>)
      | Threw err s1 \<Rightarrow> schedule_reconnect (s1\<lparr> isReconnecting := False \<rparr>))"

definition handleConnectionFailure :: "env \<Rightarrow> service \<Rightarrow> service" where
  "handleConnectionFailure e s =
     (case handleConnectionFailure_begin s of
        Returned s' \<Rightarrow> s'
      | Paused saved s' \<Rightarrow> handleConnectionFailure_resume e saved s')"

text \<open>The closure of line 528, run when a backoff timer fires.\<close>

definition reconnect_finish :: "config_kind \<Rightarrow> outcome \<Rightarrow> service" where
  "reconnect_finish k r =
     (case r of
        Done s1 \<Rightarrow>
          (let s2 = s1\<lparr> lastUsedConfig := Some k \<rparr>;
               s3 = (if truthy_str (remotePeerId s2) \<and> truthy_str (roomId s2)
                     then emit ReconnectCall s2 else s2)
           in s3\<lparr> isReconnecting := False \<rparr>)
      | Threw err s1 \<Rightarrow> snd (setTimeout RetryFailure 1000 (s1\<lparr> isReconnecting := False \<rparr>)))"

definition reconnect_attempt_begin :: "env \<Rightarrow> service \<Rightarrow> unit paused" where
  "reconnect_attempt_begin e s =
     (let s1 = cleanup s
      in if reconnectAttempts s1 mod 2 = 0 then Paused () (initializeWithTurn_request s1)
         else Returned (reconnect_finish Stun (initializeWithStun e s1)))"

definition reconnect_attempt_resume :: "env \<Rightarrow> service \<Rightarrow> service" where
  "reconnect_attempt_resume e s = reconnect_finish Turn (initializeWithTurn_response e s)"

definition reconnect_attempt :: "env \<Rightarrow> service \<Rightarrow> service" where
  "reconnect_attempt e s =
     (case reconnect_attempt_begin e s of
        Returned s' \<Rightarrow> s'
      | Paused u s' \<Rightarrow> reconnect_attempt_resume e s')"

subsection \<open>Offer, answer and remote description (lines 62-152)\<close>

definition signaling_name :: "signaling \<Rightarrow> string" where
  "signaling_name g =
     (case g of
        Stable \<Rightarrow> ''stable'' | HaveLocalOffer \<Rightarrow> ''have-local-offer''
      | HaveRemoteOffer \<Rightarrow> ''have-remote-offer'' | HaveLocalPranswer \<Rightarrow> ''have-local-pranswer''
      | HaveRemotePranswer \<Rightarrow> ''have-remote-pranswer'' | SignalingClosed \<Rightarrow> ''closed'')"

text \<open>
  What the browser does to a connection object when a description set on it succeeds:
  the new signaling state and remote description are the browser's. The object is the one
  the call was made on; when the service has dropped it since, nothing the service holds
  changes.
\<close>

definition browser_applies ::
  "nat \<Rightarrow> signaling \<times> description option \<Rightarrow> service \<Rightarrow> service" where
  "browser_applies i r s =
     (case peer s of
        None \<Rightarrow> s
      | Some p \<Rightarrow>
          if pid p = i then
            s\<lparr> peer := Some (p\<lparr> signalingState := fst r, remoteDescription := snd r \<rparr>) \<rparr>
          else s)"

definition createOffer :: "env \<Rightarrow> service \<Rightarrow> outcome" where
  "createOffer e s =
     (case peer s of
        None \<Rightarrow> Threw (JsError ''No peer connection available'') s
      | Some p \<Rightarrow>
          (let s1 = perform (RtcCreateOffer (pid p)) s
           in case rtcOffer e of
                Some (offer, g) \<Rightarrow> Done (s1\<lparr> peer := Some (p\<lparr> signalingState := g \<rparr>) \<rparr>)
              | None \<Rightarrow>
                  Threw BrowserError
                    (handleConnectionFailure e
                       (emit (ErrorEvent ''offer'' ''Error creating offer'' (Some BrowserError))
                          s1))))"

definition createAnswer :: "env \<Rightarrow> description \<Rightarrow> service \<Rightarrow> outcome" where
  "createAnswer e offer s =
     (case peer s of
        None \<Rightarrow> Threw (JsError ''No peer connection available'') s
      | Some p \<Rightarrow>
          (let s1 = perform (RtcSetRemote (pid p) offer) s;
               failed = (\<lambda>s'. Threw BrowserError
                          (handleConnectionFailure e
                             (emit (ErrorEvent ''answer'' ''Error creating answer''
                                      (Some BrowserError)) s')))
           in case rtcSetRemote e of
                None \<Rightarrow> failed s1
              | Some r \<Rightarrow>
                  (let s2 = perform (RtcCreateAnswer (pid p)) (browser_applies (pid p) r s1)
                   in case rtcAnswer e of
                        None \<Rightarrow> failed s2
                      | Some (answer, g) \<Rightarrow>
                          Done (s2\<lparr> peer := map_option (\<lambda>q. q\<lparr> signalingState := g \<rparr>)
                                                     (peer s2) \<rparr>))))"

text \<open>
  \<^verbatim>\<open>setRemoteDescription\<close>, lines 115-152. The \<^verbatim>\<open>catch\<close> block and the \<^verbatim>\<open>finally\<close>
  block first; then the part that runs before the wait for the browser's
  \<^verbatim>\<open>setRemoteDescription\<close>, and the part that runs once the browser has answered.
\<close>

definition setRemoteDescription_failed :: "env \<Rightarrow> js_error \<Rightarrow> service \<Rightarrow> service" where
  "setRemoteDescription_failed e err s =
     (handleConnectionFailure e
        (emit (ErrorEvent ''remote-description'' ''Connection failed. Please try again.''
                 (Some err)) s))
       \<lparr> isSettingRemoteDescription := False \<rparr>"

definition setRemoteDescription_begin :: "env \<Rightarrow> description \<Rightarrow> service \<Rightarrow> nat paused" where
  "setRemoteDescription_begin e answer s =
     (case peer s of
        None \<Rightarrow> Returned s
      | Some p \<Rightarrow>
          if isSettingRemoteDescription s then Returned s
          else
            (let s1 = s\<lparr> isSettingRemoteDescription := True \<rparr>;
                 currentState = signalingState p
             in if currentState \<in> {Stable, HaveLocalOffer} then
                  Paused (pid p) (perform (RtcSetRemote (pid p) answer) s1)
                else
                  Returned
                    (setRemoteDescription_failed e
                       (JsError (''Invalid signaling state for remote description: ''
                                 @ signaling_name currentState)) s1)))"

definition setRemoteDescription_resume :: "env \<Rightarrow> nat \<Rightarrow> service \<Rightarrow> service option" where
  "setRemoteDescription_resume e i s =
     (case rtcSetRemote e of
        None \<Rightarrow> Some (setRemoteDescription_failed e BrowserError s)
      | Some r \<Rightarrow>
          (case processPendingCandidates e (browser_applies i r s) of
             None \<Rightarrow> None
           | Some s2 \<Rightarrow> Some (s2\<lparr> isSettingRemoteDescription := False \<rparr>)))"

definition setRemoteDescription :: "env \<Rightarrow> description \<Rightarrow> service \<Rightarrow> service option" where
  "setRemoteDescription e answer s =
     (case setRemoteDescription_begin e answer s of
        Returned s' \<Rightarrow> Some s'
      | Paused i s' \<Rightarrow> setRemoteDescription_resume e i s')"

subsection \<open>Tracks (lines 387-479, 553-562)\<close>

record track_event =
  streams :: "media_stream list"
  kind :: string

definition fresh_info :: "media_stream \<Rightarrow> tracking_info" where
  "fresh_info st =
     \<lparr> hasAudio = False, hasVideo = False, emitted = False, timeoutId = None, stream = st \<rparr>"

definition get_or_create :: "media_stream \<Rightarrow> service \<Rightarrow> nat \<times> service" where
  "get_or_create st s =
     (case map_of (streamTracking s) st of
        Some a \<Rightarrow> (a, s)
      | None \<Rightarrow>
          (nextInfo s,
           s\<lparr> infos := (infos s)(nextInfo s := fresh_info st),
              nextInfo := Suc (nextInfo s),
              streamTracking := streamTracking s @ [(st, nextInfo s)] \<rparr>))"

definition update_info :: "nat \<Rightarrow> (tracking_info \<Rightarrow> tracking_info) \<Rightarrow> service \<Rightarrow> service" where
  "update_info a f s = s\<lparr> infos := (infos s)(a := f (infos s a)) \<rparr>"

definition handleIncomingTrack :: "track_event \<Rightarrow> service \<Rightarrow> service" where
  "handleIncomingTrack ev s =
     (case streams ev of
        [] \<Rightarrow> s
      | st # rest \<Rightarrow>
          (let (a, s1) = get_or_create st s;
               s2 = (if kind ev = ''audio'' then update_info a (\<lambda>i. i\<lparr> hasAudio := True \<rparr>) s1
                     else if kind ev = ''video'' then
                       update_info a (\<lambda>i. i\<lparr> hasVideo := True \<rparr>) s1
                     else s1);
               s3 = clear_if_set (timeoutId (infos s2 a)) s2;
               (t, s4) = setTimeout (TrackDebounce a) 1000 s3
           in update_info a (\<lambda>i. i\<lparr> timeoutId := Some t \<rparr>) s4))"

text \<open>The closure of line 425, run when a debounce timer fires.\<close>

definition debounce_fired :: "nat \<Rightarrow> service \<Rightarrow> service" where
  "debounce_fired a s =
     (if \<not> emitted (infos s a) then
        emit (RemoteStream (stream (infos s a))) (update_info a (\<lambda>i. i\<lparr> emitted := True \<rparr>) s)
      else s)"

text \<open>A local stream is its tracks, each a kind and a name.\<close>

definition addTracks :: "env \<Rightarrow> (string \<times> string) list option \<Rightarrow> service \<Rightarrow> service" where
  "addTracks e st s =
     (case (peer s, st) of
        (Some p, Some tracks) \<Rightarrow>
          (let s1 = fold (\<lambda>(k, sender) s'. perform (RtcRemoveTrack (pid p) sender) s')
                      (senders s) s;
               s2 = s1\<lparr> senders := [] \<rparr>
           in fold (\<lambda>(k, t) s'.
                      if rtcAddTrackOk e t then
                        (perform (RtcAddTrack (pid p) t) s')
                          \<lparr> senders := AList.update k t (senders s') \<rparr>
                      else perform (RtcAddTrack (pid p) t) s')
                   tracks s2)
      | _ \<Rightarrow> s)"

definition switchMediaSource :: "env \<Rightarrow> (string \<times> string) list option \<Rightarrow> service \<Rightarrow> service" where
  "switchMediaSource e st s =
     (if peer s = None then s else emit MediaSourceSwitched (addTracks e st s))"

subsection \<open>The handlers of setupPeerEvents and setupSocketEvents\<close>

definition socket_ice_candidate ::
  "env \<Rightarrow> candidate option \<Rightarrow> string \<Rightarrow> service \<Rightarrow> service" where
  "socket_ice_candidate e c room s =
     (if c \<noteq> None \<and> peer s \<noteq> None \<and> Some room = roomId s then addIceCandidate e (the c) s
      else s)"

definition on_icecandidate :: "candidate option \<Rightarrow> service \<Rightarrow> service" where
  "on_icecandidate c s =
     (if c \<noteq> None \<and> socket s then
        (if truthy_str (remotePeerId s) then
           perform (SocketEmitCandidate (the c) (the (remotePeerId s)) (roomId s)) s
         else s)
      else s)"

definition on_iceconnectionstatechange :: "env \<Rightarrow> service \<Rightarrow> service" where
  "on_iceconnectionstatechange e s =
     (case map_option iceConnectionState (peer s) of
        Some IceConnected \<Rightarrow>
          emit IceConnectedEvent (s\<lparr> reconnectAttempts := 0, isReconnecting := False \<rparr>)
      | Some IceCompleted \<Rightarrow>
          emit IceConnectedEvent (s\<lparr> reconnectAttempts := 0, isReconnecting := False \<rparr>)
      | Some IceChecking \<Rightarrow>
          (let (t, s1) = setTimeout IceCheckingTimeout 10000 (clear_if_set (iceTimeout s) s)
           in s1\<lparr> iceTimeout := Some t \<rparr>)
      | Some IceFailed \<Rightarrow> handleConnectionFailure e (clear_if_set (iceTimeout s) s)
      | Some IceDisconnected \<Rightarrow>
          snd (setTimeout DisconnectedGrace 3000 (clear_if_set (iceTimeout s) s))
      | _ \<Rightarrow> s)"

definition on_connectionstatechange :: "env \<Rightarrow> service \<Rightarrow> service" where
  "on_connectionstatechange e s =
     (case map_option connectionState (peer s) of
        Some ConnFailed \<Rightarrow> handleConnectionFailure e s
      | Some ConnDisconnected \<Rightarrow> handleConnectionFailure e s
      | _ \<Rightarrow> s)"

text \<open>
  The browser changes an attribute of the live connection object and then calls the
  handler in the slot, when the slot is filled.
\<close>

definition browser_ice :: "env \<Rightarrow> ice_state \<Rightarrow> service \<Rightarrow> service" where
  "browser_ice e st s =
     (case peer s of
        None \<Rightarrow> s
      | Some p \<Rightarrow>
          (let s1 = s\<lparr> peer := Some (p\<lparr> iceConnectionState := st \<rparr>) \<rparr>
           in if oniceconnectionstatechange p then on_iceconnectionstatechange e s1 else s1))"

definition browser_connection :: "env \<Rightarrow> conn_state \<Rightarrow> service \<Rightarrow> service" where
  "browser_connection e st s =
     (case peer s of
        None \<Rightarrow> s
      | Some p \<Rightarrow>
          (let s1 = s\<lparr> peer := Some (p\<lparr> connectionState := st \<rparr>) \<rparr>
           in if onconnectionstatechange p then on_connectionstatechange e s1 else s1))"

definition browser_signaling :: "signaling \<Rightarrow> service \<Rightarrow> service" where
  "browser_signaling g s = s\<lparr> peer := map_option (\<lambda>p. p\<lparr> signalingState := g \<rparr>) (peer s) \<rparr>"

definition browser_track :: "track_event \<Rightarrow> service \<Rightarrow> service" where
  "browser_track ev s =
     (case peer s of
        None \<Rightarrow> s
      | Some p \<Rightarrow> if ontrack p then handleIncomingTrack ev s else s)"

definition browser_candidate :: "candidate option \<Rightarrow> service \<Rightarrow> service" where
  "browser_candidate c s =
     (case peer s of
        None \<Rightarrow> s
      | Some p \<Rightarrow> if onicecandidate p then on_icecandidate c s else s)"

subsection \<open>The event loop\<close>

definition run_callback :: "env \<Rightarrow> callback \<Rightarrow> service \<Rightarrow> service" where
  "run_callback e c s =
     (case c of
        IceCheckingTimeout \<Rightarrow>
          if map_option iceConnectionState (peer s) = Some IceChecking
          then handleConnectionFailure e s else s
      | DisconnectedGrace \<Rightarrow>
          if map_option iceConnectionState (peer s) = Some IceDisconnected
          then handleConnectionFailure e s else s
      | TrackDebounce a \<Rightarrow> debounce_fired a s
      | ReconnectAttempt \<Rightarrow> reconnect_attempt e s
      | RetryFailure \<Rightarrow> handleConnectionFailure e s)"

text \<open>
  A pending timer fires: it leaves the queue, the clock is at its due time (or later, when
  the loop was busy), and its closure runs.
\<close>

definition fire :: "env \<Rightarrow> timer \<Rightarrow> service \<Rightarrow> service" where
  "fire e tm s =
     run_callback e (callback tm)
       (s\<lparr> timers := filter (\<lambda>x. tid x \<noteq> tid tm) (timers s), now := max (now s) (due tm) \<rparr>)"

text \<open>The timer that fires next: the earliest due, the first armed among equals.\<close>

fun earliest :: "timer list \<Rightarrow> timer option" where
  "earliest [] = None"
| "earliest (t # ts) =
     (case earliest ts of
        None \<Rightarrow> Some t
      | Some u \<Rightarrow> if due u < due t then Some u else Some t)"

definition fire_next :: "env \<Rightarrow> service \<Rightarrow> service" where
  "fire_next e s = (case earliest (timers s) of None \<Rightarrow> s | Some tm \<Rightarrow> fire e tm s)"

text \<open>
  Time passes until \<open>t\<close>: every timer due by then fires, in order, each at its due time.
  Timers arm timers, so this loop need not end; \<open>None\<close> is the run that does not.
\<close>

partial_function (option) advance :: "env \<Rightarrow> nat \<Rightarrow> service \<Rightarrow> service option" where
  "advance e t s =
     (case earliest (timers s) of
        None \<Rightarrow> Some (s\<lparr> now := max (now s) t \<rparr>)
      | Some tm \<Rightarrow>
          if due tm \<le> t then advance e t (fire e tm s)
          else Some (s\<lparr> now := max (now s) t \<rparr>))"

section \<open>The vocabulary of the properties\<close>

subsection \<open>Reading the trace\<close>

text \<open>The state an outcome carries, and the state a stopped method is in.\<close>

fun final :: "outcome \<Rightarrow> service" where
  "final (Done s) = s"
| "final (Threw err s) = s"

fun state_of :: "'k paused \<Rightarrow> service" where
  "state_of (Returned s) = s"
| "state_of (Paused k s) = s"

text \<open>
  The calls that reached the browser's \<^verbatim>\<open>setRemoteDescription\<close> and
  \<^verbatim>\<open>addIceCandidate\<close>, with the connection they were made on, in the order of the trace;
  the number of credential fetches and of \<open>reconnectCall\<close> events; whether the terminal
  \<open>reconnect\<close> error was emitted; the delays of the timers armed.
\<close>

fun set_call :: "effect \<Rightarrow> (nat \<times> description) list" where
  "set_call (RtcSetRemote i d) = [(i, d)]"
| "set_call _ = []"

definition sets :: "service \<Rightarrow> (nat \<times> description) list" where
  "sets s = concat (map (set_call \<circ> snd) (trace s))"

fun handed :: "effect \<Rightarrow> (nat \<times> candidate) list" where
  "handed (RtcAddIceCandidate i c) = [(i, c)]"
| "handed _ = []"

definition applied :: "service \<Rightarrow> (nat \<times> candidate) list" where
  "applied s = concat (map (handed \<circ> snd) (trace s))"

fun fetches :: "(nat \<times> effect) list \<Rightarrow> nat" where
  "fetches [] = 0"
| "fetches ((t, x) # xs) = (if x = Fetch then Suc (fetches xs) else fetches xs)"

fun reconnect_calls :: "(nat \<times> effect) list \<Rightarrow> nat" where
  "reconnect_calls [] = 0"
| "reconnect_calls ((t, x) # xs) =
     (if x = Emit ReconnectCall then Suc (reconnect_calls xs) else reconnect_calls xs)"

fun exhausted :: "(nat \<times> effect) list \<Rightarrow> bool" where
  "exhausted [] = False"
| "exhausted ((t, x) # xs) =
     (case x of
        Emit (ErrorEvent ty msg err) \<Rightarrow> ty = ''reconnect'' \<or> exhausted xs
      | _ \<Rightarrow> exhausted xs)"

fun delays :: "(nat \<times> effect) list \<Rightarrow> nat list" where
  "delays [] = []"
| "delays ((t, x) # xs) = (case x of SetTimeout i d c \<Rightarrow> d # delays xs | _ \<Rightarrow> delays xs)"

text \<open>The connection objects closed, as they were when \<^verbatim>\<open>close\<close> was called on them.\<close>

fun closes :: "(nat \<times> effect) list \<Rightarrow> rtc list" where
  "closes [] = []"
| "closes ((t, x) # xs) = (case x of RtcClose p \<Rightarrow> p # closes xs | _ \<Rightarrow> closes xs)"

text \<open>
  The trace of \<open>s'\<close> is the trace of \<open>s\<close> with effects of the kinds \<open>A\<close> appended.
\<close>

definition extends_by :: "(effect \<Rightarrow> bool) \<Rightarrow> service \<Rightarrow> service \<Rightarrow> bool" where
  "extends_by A s s' \<longleftrightarrow> (\<exists>es. trace s' = trace s @ es \<and> (\<forall>x \<in> set es. A (snd x)))"

text \<open>The kinds of effect of the recovery path, and of the candidate path.\<close>

fun recovery_effect :: "effect \<Rightarrow> bool" where
  "recovery_effect (Emit ev) = True"
| "recovery_effect Fetch = True"
| "recovery_effect (RtcNew i c) = True"
| "recovery_effect (RtcClose p) = True"
| "recovery_effect (SetTimeout t d c) = True"
| "recovery_effect (ClearTimeout t) = True"
| "recovery_effect _ = False"

fun candidate_effect :: "effect \<Rightarrow> bool" where
  "candidate_effect (Emit ev) = True"
| "candidate_effect (RtcAddIceCandidate i c) = True"
| "candidate_effect _ = False"

subsection \<open>The timers that cleanup cancels\<close>

text \<open>The timer handles recorded in the tracking map, in the map's order.\<close>

definition handle_of :: "nat option \<Rightarrow> nat list" where
  "handle_of h = (if truthy_id h then [the h] else [])"

definition debounce_handles :: "service \<Rightarrow> nat list" where
  "debounce_handles s =
     concat (map (\<lambda>(sid, a). handle_of (timeoutId (infos s a))) (streamTracking s))"

text \<open>Every pending debounce timer is the one its tracking-info object records.\<close>

definition debounce_tracked :: "service \<Rightarrow> bool" where
  "debounce_tracked s =
     list_all (\<lambda>tm. case callback tm of
                       TrackDebounce a \<Rightarrow> tid tm \<in> set (debounce_handles s)
                     | _ \<Rightarrow> True) (timers s)"

definition is_debounce :: "timer \<Rightarrow> bool" where
  "is_debounce tm = (case callback tm of TrackDebounce a \<Rightarrow> True | _ \<Rightarrow> False)"

text \<open>
  The two timers of \<^verbatim>\<open>setupPeerEvents\<close>, whose callbacks test the ICE state of the current
  connection before they act.
\<close>

definition ice_guarded :: "timer \<Rightarrow> bool" where
  "ice_guarded tm \<longleftrightarrow> callback tm = IceCheckingTimeout \<or> callback tm = DisconnectedGrace"

subsection \<open>The states the object can be in\<close>

text \<open>
  The states the object can be in. Every method and handler may be called at any time
  with any argument, the browser and the endpoint may answer anything, any pending timer
  may fire, and a method that waits may be resumed at any time: this covers every
  interleaving of the waits with other events, and more.
\<close>

inductive reachable :: "service \<Rightarrow> bool" where
  r_constructor: "reachable constructor"
| r_setSocket: "reachable s \<Longrightarrow> reachable (setSocket s)"
| r_socket_candidate: "reachable s \<Longrightarrow> reachable (socket_ice_candidate e c room s)"
| r_addIceCandidate: "reachable s \<Longrightarrow> reachable (addIceCandidate e c s)"
| r_processPending:
    "reachable s \<Longrightarrow> processPendingCandidates e s = Some s' \<Longrightarrow> reachable s'"
| r_createOffer: "reachable s \<Longrightarrow> reachable (final (createOffer e s))"
| r_createAnswer: "reachable s \<Longrightarrow> reachable (final (createAnswer e d s))"
| r_setRemoteDescription:
    "reachable s \<Longrightarrow> setRemoteDescription e d s = Some s' \<Longrightarrow> reachable s'"
| r_setRemoteDescription_begin:
    "reachable s \<Longrightarrow> reachable (state_of (setRemoteDescription_begin e d s))"
| r_setRemoteDescription_resume:
    "reachable s \<Longrightarrow> setRemoteDescription_resume e i s = Some s' \<Longrightarrow> reachable s'"
| r_initializePeer: "reachable s \<Longrightarrow> reachable (final (initializePeer e room s))"
| r_initializeConnection: "reachable s \<Longrightarrow> reachable (final (initializeConnection e s))"
| r_initializeWithStun: "reachable s \<Longrightarrow> reachable (final (initializeWithStun e s))"
| r_initializeWithTurn: "reachable s \<Longrightarrow> reachable (final (initializeWithTurn e s))"
| r_turn_request: "reachable s \<Longrightarrow> reachable (initializeWithTurn_request s)"
| r_turn_response: "reachable s \<Longrightarrow> reachable (final (initializeWithTurn_response e s))"
| r_createPeerConnection: "reachable s \<Longrightarrow> reachable (final (createPeerConnection e c s))"
| r_setRemotePeer: "reachable s \<Longrightarrow> reachable (setRemotePeer i s)"
| r_setupPeerEvents: "reachable s \<Longrightarrow> reachable (setupPeerEvents s)"
| r_handleIncomingTrack: "reachable s \<Longrightarrow> reachable (handleIncomingTrack ev s)"
| r_addTracks: "reachable s \<Longrightarrow> reachable (addTracks e st s)"
| r_switchMediaSource: "reachable s \<Longrightarrow> reachable (switchMediaSource e st s)"
| r_handleConnectionFailure: "reachable s \<Longrightarrow> reachable (handleConnectionFailure e s)"
| r_failure_begin: "reachable s \<Longrightarrow> reachable (state_of (handleConnectionFailure_begin s))"
| r_failure_resume: "reachable s \<Longrightarrow> reachable (handleConnectionFailure_resume e k s)"
| r_attempt_begin: "reachable s \<Longrightarrow> reachable (state_of (reconnect_attempt_begin e s))"
| r_attempt_resume: "reachable s \<Longrightarrow> reachable (reconnect_attempt_resume e s)"
| r_cleanup: "reachable s \<Longrightarrow> reachable (cleanup s)"
| r_browser_ice: "reachable s \<Longrightarrow> reachable (browser_ice e i s)"
| r_browser_connection: "reachable s \<Longrightarrow> reachable (browser_connection e c s)"
| r_browser_signaling: "reachable s \<Longrightarrow> reachable (browser_signaling g s)"
| r_browser_track: "reachable s \<Longrightarrow> reachable (browser_track ev s)"
| r_browser_candidate: "reachable s \<Longrightarrow> reachable (browser_candidate c s)"
| r_fire: "reachable s \<Longrightarrow> tm \<in> set (timers s) \<Longrightarrow> reachable (fire e tm s)"
| r_elapse: "reachable s \<Longrightarrow> reachable (s\<lparr> now := max (now s) t \<rparr>)"

text \<open>The counter is within its bound, and the bound is the constructor's.\<close>

definition bounded :: "service \<Rightarrow> bool" where
  "bounded s \<longleftrightarrow> reconnectAttempts s \<le> maxReconnectAttempts s \<and> maxReconnectAttempts s = 5"

text \<open>
  The bookkeeping of timers and tracking objects is in order. Timer handles are positive,
  below the next handle to be given out, and no two pending timers share one. The tracking
  map has one entry for a stream identifier; an entry points at an object that exists and
  holds the stream of that identifier, and the handle the object records has been given
  out. A pending debounce timer is the one recorded by the object it will act on, and that
  object is in the map; a pending timer whose handle an object of the map records is the
  debounce timer of that object.
\<close>

definition tidy :: "service \<Rightarrow> bool" where
  "tidy s \<longleftrightarrow>
     0 < nextTimer s \<and>
     list_all (\<lambda>tm. 0 < tid tm \<and> tid tm < nextTimer s) (timers s) \<and>
     distinct (map tid (timers s)) \<and>
     distinct (map fst (streamTracking s)) \<and>
     list_all (\<lambda>(sid, a). a < nextInfo s \<and> stream (infos s a) = sid \<and>
                 (case timeoutId (infos s a) of None \<Rightarrow> True | Some h \<Rightarrow> h < nextTimer s))
       (streamTracking s) \<and>
     list_all (\<lambda>tm. (case callback tm of
                        TrackDebounce a \<Rightarrow>
                          (stream (infos s a), a) \<in> set (streamTracking s) \<and>
                          timeoutId (infos s a) = Some (tid tm)
                      | _ \<Rightarrow> True) \<and>
                     list_all (\<lambda>(sid, a). timeoutId (infos s a) = Some (tid tm) \<longrightarrow>
                                            callback tm = TrackDebounce a)
                       (streamTracking s))
       (timers s)"

subsection \<open>Tracks in time\<close>

text \<open>
  The stream a track event belongs to is the first of its streams; an event with none is
  ignored by the handler.
\<close>

definition stream_of :: "track_event \<Rightarrow> media_stream option" where
  "stream_of ev = (case streams ev of [] \<Rightarrow> None | st # rest \<Rightarrow> Some st)"

text \<open>
  Tracks arrive, each at its time: the timers due by then have fired, then the handler
  runs. After the last arrival time passes until \<open>T\<close>.
\<close>

fun run_tracks :: "env \<Rightarrow> (nat \<times> track_event) list \<Rightarrow> nat \<Rightarrow> service \<Rightarrow> service option" where
  "run_tracks e [] T s = advance e T s"
| "run_tracks e ((t, ev) # xs) T s =
     Option.bind (advance e t s) (\<lambda>s'. run_tracks e xs T (handleIncomingTrack ev s'))"

text \<open>
  The times at which the tracks of one stream arrive, and the times at which \<open>remoteStream\<close>
  events for it were emitted, in the order of the trace.
\<close>

definition arrivals :: "media_stream \<Rightarrow> (nat \<times> track_event) list \<Rightarrow> nat list" where
  "arrivals sid xs = map fst (filter (\<lambda>(t, ev). stream_of ev = Some sid) xs)"

fun ready_times :: "media_stream \<Rightarrow> (nat \<times> effect) list \<Rightarrow> nat list" where
  "ready_times sid [] = []"
| "ready_times sid ((t, x) # xs) =
     (if x = Emit (RemoteStream sid) then t # ready_times sid xs else ready_times sid xs)"

text \<open>
  The time at which the debounce timer of a stream fires in the end, when the timer is due at
  \<open>d\<close> and further tracks of the stream arrive at the times \<open>ts\<close>: a track that arrives
  before the timer is due re-arms it, 1000 ms from the arrival; the first due time that no
  arrival precedes is the one.
\<close>

fun settle :: "nat \<Rightarrow> nat list \<Rightarrow> nat" where
  "settle d [] = d"
| "settle d (t # ts) = (if d \<le> t then d else settle (t + 1000) ts)"

text \<open>No timer other than debounce timers falls due up to \<open>T\<close>.\<close>

definition quiet :: "nat \<Rightarrow> service \<Rightarrow> bool" where
  "quiet T s = list_all (\<lambda>tm. is_debounce tm \<or> T < due tm) (timers s)"

text \<open>
  The three conditions a stream identifier can be in: the tracking map has no entry for it;
  its debounce timer is pending, due at \<open>d\<close>, and its event has not been emitted; its event
  has been emitted.
\<close>

definition absent :: "media_stream \<Rightarrow> service \<Rightarrow> bool" where
  "absent sid s \<longleftrightarrow> map_of (streamTracking s) sid = None"

definition waiting :: "media_stream \<Rightarrow> nat \<Rightarrow> service \<Rightarrow> bool" where
  "waiting sid d s \<longleftrightarrow>
     (case map_of (streamTracking s) sid of
        None \<Rightarrow> False
      | Some a \<Rightarrow>
          \<not> emitted (infos s a) \<and> now s \<le> d \<and>
          list_ex (\<lambda>tm. callback tm = TrackDebounce a \<and> due tm = d) (timers s))"

definition ready :: "media_stream \<Rightarrow> service \<Rightarrow> bool" where
  "ready sid s \<longleftrightarrow>
     (case map_of (streamTracking s) sid of None \<Rightarrow> False | Some a \<Rightarrow> emitted (infos s a))"

subsection \<open>Sessions to run the model on\<close>

text \<open>
  A browser and endpoint that accept everything, and ones that refuse everything.
\<close>

definition accepting :: env where
  "accepting =
     \<lparr> fetchTurn = Credentials \<lparr> cred_urls = [''turn:relay.example:3478''],
                                   cred_username = ''user'', cred_credential = ''secret'' \<rparr>,
       rtcConstruct = (\<lambda>c. True),
       rtcSetRemote = Some (Stable, Some \<lparr> dtype = ''answer'', sdp = ''v=0'' \<rparr>),
       rtcAddCandidate = (\<lambda>c. True),
       rtcOffer = Some (\<lparr> dtype = ''offer'', sdp = ''v=0'' \<rparr>, HaveLocalOffer),
       rtcAnswer = Some (\<lparr> dtype = ''answer'', sdp = ''v=0'' \<rparr>, Stable),
       rtcAddTrackOk = (\<lambda>t. True) \<rparr>"

definition refusing :: env where
  "refusing =
     \<lparr> fetchTurn = FetchRejected, rtcConstruct = (\<lambda>c. False), rtcSetRemote = None,
       rtcAddCandidate = (\<lambda>c. False), rtcOffer = None, rtcAnswer = None,
       rtcAddTrackOk = (\<lambda>t. False) \<rparr>"

definition an_answer :: description where
  "an_answer = \<lparr> dtype = ''answer'', sdp = ''v=0'' \<rparr>"

definition an_audio_track :: track_event where
  "an_audio_track = \<lparr> streams = [''stream-1''], kind = ''audio'' \<rparr>"

definition track_of :: "media_stream \<Rightarrow> string \<Rightarrow> track_event" where
  "track_of sid k = \<lparr> streams = [sid], kind = k \<rparr>"

text \<open>
  A session in a call: \<^verbatim>\<open>initializePeer\<close> has connected it through the first
  configuration, and the remote peer is known.
\<close>

definition in_call :: service where
  "in_call = setRemotePeer (Some ''bob'') (final (initializePeer accepting (Some ''room-1'') constructor))"

text \<open>The same session after the browser has moved to \<open>have-remote-offer\<close>.\<close>

definition glare :: service where
  "glare = browser_signaling HaveRemoteOffer in_call"

text \<open>
  The session in a call with three timers pending: a track has just arrived, the connection
  was reported disconnected and then checking.
\<close>

definition busy :: service where
  "busy = browser_ice accepting IceChecking
            (browser_ice accepting IceDisconnected (browser_track an_audio_track in_call))"

text \<open>
  The session in a call at the moment a first track, of the stream \<open>stream-1\<close>, has arrived;
  and the tracks of two more streams that arrive while its debounce timer is pending.
\<close>

definition debouncing :: service where
  "debouncing = browser_track an_audio_track in_call"

definition three_streams :: "(nat \<times> track_event) list" where
  "three_streams =
     [(300, track_of ''stream-2'' ''video''),
      (600, track_of ''stream-3'' ''audio''),
      (900, track_of ''stream-3'' ''video'')]"

text \<open>
  A session whose counter stands at the bound. The connection of the session in a call
  reports failed six times before the credential endpoint has answered the first of the
  six requests, so six calls of \<^verbatim>\<open>handleConnectionFailure\<close> wait at the same time; then the
  endpoint turns every request down, and the six calls resume one after the other.
\<close>

definition six_waits :: service where
  "six_waits = ((\<lambda>s. state_of (handleConnectionFailure_begin s)) ^^ 6) in_call"

definition counted_out :: service where
  "counted_out =
     (handleConnectionFailure_resume refusing (None, None) ^^ 5)
       (handleConnectionFailure_resume refusing (Some ''bob'', Some ''room-1'') six_waits)"

text \<open>
  The session after its first failure was answered by the immediate fallback; after it
  failed again, which arms a backoff timer; and after that timer has fired. The endpoint and
  the browser answer well throughout.
\<close>

definition after_fallback :: service where
  "after_fallback = browser_connection accepting ConnFailed in_call"

definition failed_again :: service where
  "failed_again = browser_connection accepting ConnFailed after_fallback"

definition after_backoff :: service where
  "after_backoff = fire_next accepting failed_again"

text \<open>
  The session in a call after a first \<^verbatim>\<open>handleConnectionFailure\<close> has started the immediate
  fallback and waits for the credential endpoint; and after a second call made during that
  wait.
\<close>

definition first_wait :: service where
  "first_wait =
     initializeWithTurn_request
       (cleanup (in_call\<lparr> isReconnecting := True, reconnectAttempts := 1 \<rparr>))"

definition second_wait :: service where
  "second_wait =
     initializeWithTurn_request
       (cleanup (first_wait\<lparr> isReconnecting := True, reconnectAttempts := 1 \<rparr>))"

definition both_resumed :: service where
  "both_resumed =
     handleConnectionFailure_resume accepting (None, None)
       (handleConnectionFailure_resume accepting (Some ''bob'', Some ''room-1'') second_wait)"

text \<open>
  The session of \<open>failed_again\<close>, its backoff timer pending, after the connection came
  back for a moment and failed again.
\<close>

definition flapped :: service where
  "flapped =
     browser_connection accepting ConnFailed (browser_ice accepting IceConnected failed_again)"

text \<open>
  The session in a call when the network goes: the connection reports failed, and from then
  on the credential endpoint is unreachable and no connection object can be built. Then the
  timers fire, one after the other.
\<close>

definition network_lost :: service where
  "network_lost = browser_connection refusing ConnFailed in_call"

definition retry_loop :: "nat \<Rightarrow> service" where
  "retry_loop n = (fire_next refusing ^^ n) network_lost"

text \<open>The two shapes the retry loop alternates between.\<close>

definition retrying :: "service \<Rightarrow> bool" where
  "retrying s \<longleftrightarrow>
     peer s = None \<and> lastUsedConfig s = None \<and> maxReconnectAttempts s = 5 \<and>
     streamTracking s = [] \<and>
     (isReconnecting s \<and> reconnectAttempts s = 1 \<and> map callback (timers s) = [ReconnectAttempt]
      \<or> \<not> isReconnecting s \<and> reconnectAttempts s = 0 \<and>
        map callback (timers s) = [RetryFailure])"

text \<open>
  The other way of failing for ever: every attempt builds a connection, and every connection
  built reports failed. One round is the failure report and the backoff timer it arms
  firing.
\<close>

definition failing_round :: "service \<Rightarrow> service" where
  "failing_round s = fire_next accepting (browser_connection accepting ConnFailed s)"

definition keeps_failing :: "nat \<Rightarrow> service" where
  "keeps_failing n = (failing_round ^^ n) after_fallback"

text \<open>The shape every round starts from and ends in.\<close>

definition rebuilt :: "service \<Rightarrow> bool" where
  "rebuilt s \<longleftrightarrow>
     (case peer s of None \<Rightarrow> False | Some p \<Rightarrow> onconnectionstatechange p) \<and>
     lastUsedConfig s = Some Turn \<and> maxReconnectAttempts s = 5 \<and> reconnectAttempts s = 0 \<and>
     \<not> isReconnecting s \<and> timers s = [] \<and> streamTracking s = []"

section \<open>Properties\<close>

subsection \<open>Unfolding the model\<close>

lemma stun_servers [simp]: "iceServers stun_config \<noteq> []"
  by (simp add: stun_config_def)

lemmas base_defs =
  perform_def emit_def setTimeout_def clearTimeout_def clear_if_set_def truthy_id_def
  truthy_str_def Let_def

lemmas build_defs =
  createPeerConnection_def setupPeerEvents_def initializeWithStun_def
  initializeWithTurn_request_def initializeWithTurn_response_def initializeWithTurn_def
  turn_failed_def

lemmas run_defs =
  initializePeer_def initializeConnection_def initializeWithStun_def createPeerConnection_def
  setupPeerEvents_def new_rtc_def cleanup_def close_peer_def clear_tracking_timers_def
  perform_def emit_def setTimeout_def clearTimeout_def clear_if_set_def truthy_id_def
  truthy_str_def setRemotePeer_def browser_track_def browser_ice_def
  on_iceconnectionstatechange_def handleIncomingTrack_def get_or_create_def update_info_def
  fresh_info_def Let_def

lemmas recovery_defs =
  handleConnectionFailure_def handleConnectionFailure_begin_def
  handleConnectionFailure_resume_def schedule_reconnect_def backoff_delay_def
  initializeWithTurn_request_def initializeWithTurn_response_def initializeWithTurn_def
  turn_failed_def turn_config_def reconnect_attempt_def reconnect_attempt_begin_def
  reconnect_attempt_resume_def reconnect_finish_def browser_connection_def
  on_connectionstatechange_def fire_next_def fire_def run_callback_def

lemma in_call_eq:
  "in_call =
     constructor\<lparr> peer := Some ((new_rtc 0 stun_config)\<lparr> ontrack := True, onicecandidate := True,
                               oniceconnectionstatechange := True,
                               onconnectionstatechange := True,
                               onsignalingstatechange := True \<rparr>),
                  roomId := Some ''room-1'', remotePeerId := Some ''bob'', nextPid := 1,
                  trace := [(0, RtcNew 0 stun_config)] \<rparr>"
  by (simp add: in_call_def accepting_def constructor_def run_defs)

lemma in_call_peer: "peer in_call = Some (the (peer in_call))"
  by (simp add: in_call_eq)

lemma in_call_facts:
  "\<not> isSettingRemoteDescription in_call"
  "signalingState (the (peer in_call)) = Stable"
  "pid (the (peer in_call)) = 0"
  "\<not> has_remote in_call"
  "roomId in_call = Some ''room-1''"
  "remotePeerId in_call = Some ''bob''"
  "pendingCandidates in_call = []"
  by (simp_all add: in_call_eq constructor_def new_rtc_def has_remote_def)

lemma in_call_flags:
  "\<not> isReconnecting in_call" "reconnectAttempts in_call = 0" "lastUsedConfig in_call = None"
  "remotePeerId in_call = Some ''bob''" "roomId in_call = Some ''room-1''"
  by (simp_all add: in_call_eq constructor_def)

subsection \<open>What a method adds to the trace\<close>

lemma extends_by_refl [simp]: "extends_by A s s"
  by (simp add: extends_by_def)

lemma extends_by_trans: "extends_by A s s' \<Longrightarrow> extends_by A s' s'' \<Longrightarrow> extends_by A s s''"
  unfolding extends_by_def by fastforce

lemma extends_by_upd [simp]:
  "extends_by A s (s'\<lparr> peer := v0 \<rparr>) = extends_by A s s'"
  "extends_by A s (s'\<lparr> roomId := v1 \<rparr>) = extends_by A s s'"
  "extends_by A s (s'\<lparr> socket := v2 \<rparr>) = extends_by A s s'"
  "extends_by A s (s'\<lparr> reconnectAttempts := v3 \<rparr>) = extends_by A s s'"
  "extends_by A s (s'\<lparr> maxReconnectAttempts := v4 \<rparr>) = extends_by A s s'"
  "extends_by A s (s'\<lparr> reconnectDelay := v5 \<rparr>) = extends_by A s s'"
  "extends_by A s (s'\<lparr> isReconnecting := v6 \<rparr>) = extends_by A s s'"
  "extends_by A s (s'\<lparr> isSettingRemoteDescription := v7 \<rparr>) = extends_by A s s'"
  "extends_by A s (s'\<lparr> senders := v8 \<rparr>) = extends_by A s s'"
  "extends_by A s (s'\<lparr> pendingCandidates := v9 \<rparr>) = extends_by A s s'"
  "extends_by A s (s'\<lparr> streamTracking := v10 \<rparr>) = extends_by A s s'"
  "extends_by A s (s'\<lparr> remotePeerId := v11 \<rparr>) = extends_by A s s'"
  "extends_by A s (s'\<lparr> lastUsedConfig := v12 \<rparr>) = extends_by A s s'"
  "extends_by A s (s'\<lparr> iceTimeout := v13 \<rparr>) = extends_by A s s'"
  "extends_by A s (s'\<lparr> infos := v14 \<rparr>) = extends_by A s s'"
  "extends_by A s (s'\<lparr> nextInfo := v15 \<rparr>) = extends_by A s s'"
  "extends_by A s (s'\<lparr> timers := v16 \<rparr>) = extends_by A s s'"
  "extends_by A s (s'\<lparr> nextTimer := v17 \<rparr>) = extends_by A s s'"
  "extends_by A s (s'\<lparr> nextPid := v18 \<rparr>) = extends_by A s s'"
  "extends_by A s (s'\<lparr> now := v19 \<rparr>) = extends_by A s s'"
  by (simp_all add: extends_by_def)

lemma extends_by_perform: "A x \<Longrightarrow> extends_by A s s' \<Longrightarrow> extends_by A s (perform x s')"
  unfolding extends_by_def perform_def by fastforce

lemma extends_by_emit: "A (Emit ev) \<Longrightarrow> extends_by A s s' \<Longrightarrow> extends_by A s (emit ev s')"
  by (simp add: emit_def extends_by_perform)

lemma extends_by_setTimeout:
  "A (SetTimeout (nextTimer s') d c) \<Longrightarrow> extends_by A s s' \<Longrightarrow> extends_by A s (snd (setTimeout c d s'))"
  unfolding extends_by_def perform_def setTimeout_def by fastforce

lemma extends_by_clearTimeout:
  "A (ClearTimeout t) \<Longrightarrow> extends_by A s s' \<Longrightarrow> extends_by A s (clearTimeout t s')"
  unfolding extends_by_def perform_def clearTimeout_def by fastforce

lemma extends_by_clear_if_set:
  "(\<And>t. A (ClearTimeout t)) \<Longrightarrow> extends_by A s s' \<Longrightarrow> extends_by A s (clear_if_set h s')"
  by (simp add: clear_if_set_def extends_by_clearTimeout)

lemma extends_by_clear_fold:
  "(\<And>t. A (ClearTimeout t)) \<Longrightarrow> extends_by A s s' \<Longrightarrow>
   extends_by A s (fold (\<lambda>(sid, a) s'. clear_if_set (timeoutId (infos s' a)) s') xs s')"
  by (induction xs arbitrary: s') (auto simp: extends_by_clear_if_set)

lemma extends_by_cleanup:
  assumes "\<And>t. A (ClearTimeout t)" "\<And>p. A (RtcClose p)" "extends_by A s s'"
  shows "extends_by A s (cleanup s')"
proof -
  have 1: "extends_by A s (clear_tracking_timers s')"
    unfolding clear_tracking_timers_def using assms by (intro extends_by_clear_fold) auto
  have 2: "extends_by A s (close_peer ((clear_tracking_timers s')\<lparr> streamTracking := [] \<rparr>))"
    using 1 assms(2)
    by (auto simp: close_peer_def extends_by_def perform_def split: option.splits)
  show ?thesis
    unfolding cleanup_def using 2 by (simp add: extends_by_def)
qed

lemma extends_by_createPeerConnection:
  assumes "\<And>i c. A (RtcNew i c)" "extends_by A s s'"
  shows "extends_by A s (final (createPeerConnection e c s'))"
  using assms
  by (auto simp: createPeerConnection_def setupPeerEvents_def extends_by_def perform_def)

lemma extends_by_turn_response:
  assumes "\<And>i c. A (RtcNew i c)" "\<And>ev. A (Emit ev)" "extends_by A s s'"
  shows "extends_by A s (final (initializeWithTurn_response e s'))"
proof (cases "fetchTurn e")
  case (Credentials cr)
  have "extends_by A s (final (createPeerConnection e (turn_config cr) s'))"
    using assms by (intro extends_by_createPeerConnection) auto
  then show ?thesis
    using Credentials assms
    by (auto simp: initializeWithTurn_response_def turn_failed_def extends_by_emit
        split: outcome.splits)
qed (use assms in \<open>auto simp: initializeWithTurn_response_def turn_failed_def extends_by_emit\<close>)

lemma extends_by_schedule:
  assumes "\<And>t d c. A (SetTimeout t d c)" "\<And>ev. A (Emit ev)" "extends_by A s s'"
  shows "extends_by A s (schedule_reconnect s')"
proof (cases "reconnectAttempts s' \<ge> maxReconnectAttempts s'")
  case True
  then show ?thesis using assms by (simp add: schedule_reconnect_def extends_by_emit)
next
  case False
  then show ?thesis
    using assms by (simp add: schedule_reconnect_def Let_def extends_by_setTimeout)
qed

lemma extends_by_hcf_begin:
  assumes "\<And>x. recovery_effect x \<Longrightarrow> A x" "extends_by A s s'"
  shows "extends_by A s (case handleConnectionFailure_begin s' of Returned r \<Rightarrow> r | Paused k r \<Rightarrow> r)"
proof -
  have c: "extends_by A s (cleanup (s'\<lparr> isReconnecting := True, reconnectAttempts := reconnectAttempts s' + 1 \<rparr>))"
    using assms by (intro extends_by_cleanup) auto
  show ?thesis
    using assms c
    by (auto simp: handleConnectionFailure_begin_def Let_def initializeWithTurn_request_def
        extends_by_perform extends_by_schedule)
qed

lemma extends_by_hcf_resume:
  assumes "\<And>x. recovery_effect x \<Longrightarrow> A x" "extends_by A s s'"
  shows "extends_by A s (handleConnectionFailure_resume e k s')"
proof -
  have r: "extends_by A s (final (initializeWithTurn_response e s'))"
    using assms by (intro extends_by_turn_response) auto
  show ?thesis
  proof (cases "initializeWithTurn_response e s'")
    case (Done s1)
    then show ?thesis
      using r assms(1)
      by (auto simp: handleConnectionFailure_resume_def Let_def intro!: extends_by_emit)
  next
    case (Threw err s1)
    then show ?thesis
      using r assms(1)
      by (auto simp: handleConnectionFailure_resume_def intro!: extends_by_schedule)
  qed
qed

lemma extends_by_hcf:
  assumes "\<And>x. recovery_effect x \<Longrightarrow> A x" "extends_by A s s'"
  shows "extends_by A s (handleConnectionFailure e s')"
  using extends_by_hcf_begin [OF assms, simplified]
    extends_by_hcf_resume [of A s _ e, OF assms(1)]
  by (auto simp: handleConnectionFailure_def split: paused.splits)

lemma emit_in_trace:
  "extends_by A (emit ev s) s' \<Longrightarrow> (now s, Emit ev) \<in> set (trace s')"
  by (auto simp: extends_by_def emit_def perform_def)

lemma sets_extends:
  "extends_by A s s' \<Longrightarrow> (\<And>x. A x \<Longrightarrow> set_call x = []) \<Longrightarrow> sets s' = sets s"
  by (auto simp: extends_by_def sets_def)

lemma sets_hcf: "sets (handleConnectionFailure e s) = sets s"
proof (rule sets_extends)
  show "extends_by recovery_effect s (handleConnectionFailure e s)"
    by (rule extends_by_hcf) auto
  show "set_call x = []" if "recovery_effect x" for x
    using that by (cases x) auto
qed

lemma sets_perform: "sets (perform x s) = sets s @ set_call x"
  by (simp add: sets_def perform_def)

lemma applied_perform: "applied (perform x s) = applied s @ handed x"
  by (simp add: applied_def perform_def)

lemma applied_extends:
  "extends_by A s s' \<Longrightarrow> (\<And>x. A x \<Longrightarrow> handed x = []) \<Longrightarrow> applied s' = applied s"
  by (auto simp: extends_by_def applied_def)

lemma reconnect_calls_append [simp]:
  "reconnect_calls (xs @ ys) = reconnect_calls xs + reconnect_calls ys"
  by (induction xs rule: reconnect_calls.induct) auto

lemma reconnect_calls_clears [simp]:
  "reconnect_calls (map (\<lambda>t. (n, ClearTimeout t)) ts) = 0"
  by (induction ts) auto

lemma fetches_append [simp]: "fetches (xs @ ys) = fetches xs + fetches ys"
  by (induction xs rule: fetches.induct) auto

lemma fetches_clears [simp]: "fetches (map (\<lambda>t. (n, ClearTimeout t)) ts) = 0"
  by (induction ts) auto

lemma exhausted_append [simp]: "exhausted (xs @ ys) \<longleftrightarrow> exhausted xs \<or> exhausted ys"
  by (induction xs rule: exhausted.induct) (auto split: effect.splits event.splits)

lemma delays_append [simp]: "delays (xs @ ys) = delays xs @ delays ys"
  by (induction xs rule: delays.induct) (auto split: effect.splits)

lemma closes_append [simp]: "closes (xs @ ys) = closes xs @ closes ys"
  by (induction xs rule: closes.induct) (auto split: effect.splits)

lemma closes_clear [simp]: "closes (map (\<lambda>t. (n, ClearTimeout t)) hs) = []"
  by (induction hs) simp_all

subsection \<open>What cleanup computes\<close>

lemma clear_fold:
  "fold (\<lambda>(sid, a) s'. clear_if_set (timeoutId (infos s' a)) s') xs s =
     s\<lparr> timers := filter (\<lambda>tm. tid tm \<notin> set (concat (map (\<lambda>(sid, a). handle_of (timeoutId (infos s a))) xs)))
                         (timers s),
        trace := trace s @ map (\<lambda>t. (now s, ClearTimeout t))
                             (concat (map (\<lambda>(sid, a). handle_of (timeoutId (infos s a))) xs)) \<rparr>"
proof (induction xs arbitrary: s)
  case Nil
  then show ?case by simp
next
  case (Cons x xs)
  obtain sid a where x: "x = (sid, a)" by (cases x)
  show ?case
  proof (cases "truthy_id (timeoutId (infos s a))")
    case True
    then show ?thesis
      using Cons.IH [of "clearTimeout (the (timeoutId (infos s a))) s"] x
      by (simp add: clear_if_set_def handle_of_def clearTimeout_def perform_def conj_commute)
  next
    case False
    then show ?thesis
      using Cons.IH [of s] x by (simp add: clear_if_set_def handle_of_def)
  qed
qed

lemma clear_tracking_timers_eq:
  "clear_tracking_timers s =
     s\<lparr> timers := filter (\<lambda>tm. tid tm \<notin> set (debounce_handles s)) (timers s),
        trace := trace s @ map (\<lambda>t. (now s, ClearTimeout t)) (debounce_handles s) \<rparr>"
  by (simp add: clear_tracking_timers_def debounce_handles_def clear_fold)

lemma cleanup_fields:
  "peer (cleanup s) = None"
  "streamTracking (cleanup s) = []"
  "senders (cleanup s) = []"
  "pendingCandidates (cleanup s) = []"
  "roomId (cleanup s) = None"
  "\<not> isReconnecting (cleanup s)"
  "\<not> isSettingRemoteDescription (cleanup s)"
  "reconnectAttempts (cleanup s) = 0"
  "timers (cleanup s) = filter (\<lambda>tm. tid tm \<notin> set (debounce_handles s)) (timers s)"
  "trace (cleanup s) =
     trace s @ map (\<lambda>t. (now s, ClearTimeout t)) (debounce_handles s)
             @ (case peer s of None \<Rightarrow> [] | Some p \<Rightarrow> [(now s, RtcClose (detach p))])"
  by (simp_all add: cleanup_def close_peer_def clear_tracking_timers_eq perform_def
      split: option.splits)

lemma cleanup_eq:
  "cleanup s =
     s\<lparr> timers := filter (\<lambda>tm. tid tm \<notin> set (debounce_handles s)) (timers s),
        trace := trace s @ map (\<lambda>t. (now s, ClearTimeout t)) (debounce_handles s)
                 @ (case peer s of None \<Rightarrow> [] | Some p \<Rightarrow> [(now s, RtcClose (detach p))]),
        streamTracking := [],
        remotePeerId := (case peer s of None \<Rightarrow> remotePeerId s | Some p \<Rightarrow> None),
        peer := None, senders := [], pendingCandidates := [], roomId := None,
        isReconnecting := False, isSettingRemoteDescription := False,
        reconnectAttempts := 0 \<rparr>"
  by (simp add: cleanup_def close_peer_def clear_tracking_timers_eq perform_def
      split: option.splits)

lemma cleanup_twice: "cleanup (cleanup s) = cleanup s"
proof -
  have "debounce_handles (cleanup s) = []"
    by (simp add: debounce_handles_def cleanup_fields)
  then have "clear_tracking_timers (cleanup s) = cleanup s"
    by (simp add: clear_tracking_timers_eq)
  then show ?thesis
    by (simp add: cleanup_def [of "cleanup s"] close_peer_def cleanup_fields)
qed

lemma busy_timers:
  "timers busy = [\<lparr> tid = 1, due = 1000, callback = TrackDebounce 0 \<rparr>,
                  \<lparr> tid = 2, due = 3000, callback = DisconnectedGrace \<rparr>,
                  \<lparr> tid = 3, due = 10000, callback = IceCheckingTimeout \<rparr>]"
  by (simp add: busy_def in_call_eq an_audio_track_def accepting_def constructor_def run_defs)

lemma busy_handles: "debounce_handles busy = [1]"
  by (simp add: debounce_handles_def handle_of_def busy_def in_call_eq an_audio_track_def
      accepting_def constructor_def run_defs)

subsection \<open>The candidate queue and the remote description\<close>

lemma drain_empty: "pendingCandidates s = [] \<Longrightarrow> drain e s = Some s"
  by (subst drain.simps) simp

lemma drain_step:
  "pendingCandidates s = c # cs \<Longrightarrow>
   drain e s = drain e (addIceCandidate e c (s\<lparr> pendingCandidates := cs \<rparr>))"
  by (subst drain.simps) simp

lemma buffer_many:
  "\<not> has_remote s \<Longrightarrow>
   fold (addIceCandidate e) cs s = s\<lparr> pendingCandidates := pendingCandidates s @ cs \<rparr>"
proof (induction cs arbitrary: s)
  case Nil
  then show ?case by simp
next
  case (Cons c cs)
  have "\<not> has_remote (s\<lparr> pendingCandidates := pendingCandidates s @ [c] \<rparr>)"
    using Cons.prems by (simp add: has_remote_def)
  then show ?case
    using Cons.prems Cons.IH [of "s\<lparr> pendingCandidates := pendingCandidates s @ [c] \<rparr>"]
    by (simp add: addIceCandidate_def)
qed

lemma apply_one:
  assumes "has_remote s" "peer s = Some p"
  shows "has_remote (addIceCandidate e c s)"
    and "peer (addIceCandidate e c s) = Some p"
    and "pendingCandidates (addIceCandidate e c s) = pendingCandidates s"
    and "applied (addIceCandidate e c s) = applied s @ [(pid p, c)]"
  using assms
  by (simp_all add: addIceCandidate_def has_remote_def perform_def emit_def applied_def Let_def)

lemma drain_flushes:
  "has_remote s \<Longrightarrow> peer s = Some p \<Longrightarrow> pendingCandidates s = cs \<Longrightarrow>
   \<exists>s'. drain e s = Some s' \<and> pendingCandidates s' = [] \<and>
        applied s' = applied s @ map (Pair (pid p)) cs"
proof (induction cs arbitrary: s)
  case Nil
  then show ?case by (simp add: drain_empty)
next
  case (Cons c cs)
  let ?s0 = "s\<lparr> pendingCandidates := cs \<rparr>"
  let ?s1 = "addIceCandidate e c ?s0"
  have h0: "has_remote ?s0" "peer ?s0 = Some p"
    using Cons.prems by (simp_all add: has_remote_def)
  have a0: "applied ?s0 = applied s" by (simp add: applied_def)
  have "has_remote ?s1" "peer ?s1 = Some p" "pendingCandidates ?s1 = cs"
    using apply_one [OF h0] by simp_all
  from Cons.IH [OF this] obtain s' where
    "drain e ?s1 = Some s'" "pendingCandidates s' = []"
    "applied s' = applied ?s1 @ map (Pair (pid p)) cs"
    by blast
  then show ?case
    using drain_step [of s c cs e] Cons.prems(3) apply_one(4) [OF h0, of e c] a0
    by simp
qed

lemma extends_by_addIceCandidate:
  assumes "\<And>i c. A (RtcAddIceCandidate i c)" "\<And>ev. A (Emit ev)" "extends_by A s s'"
  shows "extends_by A s (addIceCandidate e c s')"
  using assms
  by (auto simp: addIceCandidate_def Let_def intro!: extends_by_emit extends_by_perform)

lemma extends_by_drain:
  assumes A: "\<And>i c. A (RtcAddIceCandidate i c)" "\<And>ev. A (Emit ev)"
    and d: "drain e s = Some s'"
  shows "extends_by A s s'"
proof (induction rule: drain.raw_induct [OF _ d])
  case (1 drain' e s s')
  show ?case
  proof (cases "pendingCandidates s")
    case Nil
    then show ?thesis using 1(2) by simp
  next
    case (Cons c cs)
    have "extends_by A s (addIceCandidate e c (s\<lparr> pendingCandidates := cs \<rparr>))"
      using A by (intro extends_by_addIceCandidate) auto
    moreover have "extends_by A (addIceCandidate e c (s\<lparr> pendingCandidates := cs \<rparr>)) s'"
      using 1 Cons drain_step [OF Cons, of e] by simp
    ultimately show ?thesis by (rule extends_by_trans)
  qed
qed

lemma sets_drain: "drain e s = Some s' \<Longrightarrow> sets s' = sets s"
proof (rule sets_extends)
  assume "drain e s = Some s'"
  then show "extends_by candidate_effect s s'"
    by (rule extends_by_drain [rotated 2]) auto
  show "set_call x = []" if "candidate_effect x" for x
    using that by (cases x) auto
qed

lemma sets_processPending: "processPendingCandidates e s = Some s' \<Longrightarrow> sets s' = sets s"
  by (auto simp: processPendingCandidates_def sets_drain split: if_splits)

lemma sets_failed: "sets (setRemoteDescription_failed e err s) = sets s"
proof -
  have "sets (setRemoteDescription_failed e err s)
        = sets (handleConnectionFailure e (emit (ErrorEvent ''remote-description''
                   ''Connection failed. Please try again.'' (Some err)) s))"
    by (simp add: setRemoteDescription_failed_def sets_def)
  then show ?thesis by (simp add: sets_hcf emit_def sets_perform)
qed

lemma failed_clears_flag:
  "\<not> isSettingRemoteDescription (setRemoteDescription_failed e err s)"
  by (simp add: setRemoteDescription_failed_def)

lemma begin_without_peer: "peer s = None \<Longrightarrow> setRemoteDescription_begin e a s = Returned s"
  by (simp add: setRemoteDescription_begin_def)

lemma begin_first:
  assumes "peer s = Some p" "\<not> isSettingRemoteDescription s"
    "signalingState p \<in> {Stable, HaveLocalOffer}"
  shows "setRemoteDescription_begin e a s =
           Paused (pid p) (perform (RtcSetRemote (pid p) a) (s\<lparr> isSettingRemoteDescription := True \<rparr>))"
  using assms by (auto simp: setRemoteDescription_begin_def Let_def)

lemma begin_in_flight:
  "isSettingRemoteDescription s \<Longrightarrow> setRemoteDescription_begin e a s = Returned s"
  by (simp add: setRemoteDescription_begin_def split: option.splits)

lemma begin_invalid:
  assumes "peer s = Some p" "\<not> isSettingRemoteDescription s"
    "signalingState p \<notin> {Stable, HaveLocalOffer}"
  shows "setRemoteDescription_begin e a s =
           Returned (setRemoteDescription_failed e
             (JsError (''Invalid signaling state for remote description: ''
                       @ signaling_name (signalingState p)))
             (s\<lparr> isSettingRemoteDescription := True \<rparr>))"
  using assms by (auto simp: setRemoteDescription_begin_def Let_def)

lemma sets_browser_applies: "sets (browser_applies i r s) = sets s"
  by (simp add: browser_applies_def sets_def split: option.splits)

lemma resume_completes:
  assumes "setRemoteDescription_resume e i s = Some s'"
  shows "\<not> isSettingRemoteDescription s' \<and> sets s' = sets s"
proof (cases "rtcSetRemote e")
  case None
  then show ?thesis
    using assms by (auto simp: setRemoteDescription_resume_def failed_clears_flag sets_failed)
next
  case (Some r)
  then obtain s2 where p: "processPendingCandidates e (browser_applies i r s) = Some s2"
    and s': "s' = s2\<lparr> isSettingRemoteDescription := False \<rparr>"
    using assms by (auto simp: setRemoteDescription_resume_def split: option.splits)
  have "sets s' = sets s2" using s' by (simp add: sets_def)
  then show ?thesis
    using sets_processPending [OF p] s' by (simp add: sets_browser_applies)
qed

lemma resume_rejected:
  "rtcSetRemote e = None \<Longrightarrow> \<exists>s'. setRemoteDescription_resume e i s = Some s'"
  by (simp add: setRemoteDescription_resume_def)

lemma has_remote_applies:
  "peer s = Some p \<Longrightarrow> dtype d \<noteq> [] \<Longrightarrow> has_remote (browser_applies (pid p) (g, Some d) s)"
  by (simp add: has_remote_def browser_applies_def)

lemma resume_accepted:
  assumes "peer s = Some p" "rtcSetRemote e = Some (g, Some d)" "dtype d \<noteq> []"
  shows "\<exists>s'. setRemoteDescription_resume e (pid p) s = Some s' \<and> pendingCandidates s' = [] \<and>
              applied s' = applied s @ map (Pair (pid p)) (pendingCandidates s)"
proof -
  let ?s1 = "browser_applies (pid p) (g, Some d) s"
  have h: "has_remote ?s1" using assms by (simp add: has_remote_applies)
  have q: "peer ?s1 = Some (p\<lparr> signalingState := g, remoteDescription := Some d \<rparr>)"
    "pendingCandidates ?s1 = pendingCandidates s" "applied ?s1 = applied s"
    using assms(1) by (simp_all add: browser_applies_def applied_def)
  from drain_flushes [OF h q(1) q(2), of e] obtain s2 where
    d: "drain e ?s1 = Some s2" "pendingCandidates s2 = []"
       "applied s2 = applied s @ map (Pair (pid p)) (pendingCandidates s)"
    using q(3) by auto
  have "processPendingCandidates e ?s1 = Some s2"
  proof (cases "pendingCandidates ?s1 = []")
    case True
    then show ?thesis using d(1) by (simp add: processPendingCandidates_def drain_empty)
  next
    case False
    then show ?thesis using d(1) by (simp add: processPendingCandidates_def)
  qed
  then show ?thesis
    using assms(2) d by (simp add: setRemoteDescription_resume_def applied_def)
qed

text \<open>
  Claim C10. Called when there is no connection object (\<open>peer\<close> is null),
  \<^verbatim>\<open>setRemoteDescription\<close> returns at once and normally, and the state it returns is the
  state it was given: no field has changed, and the trace is the same, so no error event was
  emitted, no call reached the browser and the failure handler did not run.
\<close>

theorem setRemoteDescription_no_peer:
  "peer s = None \<Longrightarrow> setRemoteDescription e answer s = Some s"
  by (simp add: setRemoteDescription_def begin_without_peer)

theorem setRemoteDescription_no_peer_witness:
  "peer constructor = None \<and> setRemoteDescription refusing an_answer constructor = Some constructor"
  using setRemoteDescription_no_peer [of constructor refusing an_answer]
  by (simp add: constructor_def)

text \<open>
  Claim C3. Start in any state whose connection has no remote description. Handing the
  candidates \<open>cs\<close> to \<^verbatim>\<open>addIceCandidate\<close> one after the other applies none of them and
  appends them to the queue in that order. A \<^verbatim>\<open>setRemoteDescription\<close> that the browser then
  accepts (the connection has a remote description afterwards) returns, and by then every
  queued candidate has been handed to the connection exactly once, in the order of the queue,
  and the queue is empty. \<^verbatim>\<open>processPendingCandidates\<close> on the empty queue returns the state
  as it is.
\<close>

theorem pending_candidates_fifo:
  assumes "peer s = Some p" "\<not> has_remote s" "\<not> isSettingRemoteDescription s"
    "signalingState p \<in> {Stable, HaveLocalOffer}"
    "rtcSetRemote e = Some (g, Some d)" "dtype d \<noteq> []"
  shows "pendingCandidates (fold (addIceCandidate e0) cs s) = pendingCandidates s @ cs \<and>
         applied (fold (addIceCandidate e0) cs s) = applied s \<and>
         (\<exists>s'. setRemoteDescription e answer (fold (addIceCandidate e0) cs s) = Some s' \<and>
               applied s' = applied s @ map (Pair (pid p)) (pendingCandidates s @ cs) \<and>
               pendingCandidates s' = [] \<and>
               processPendingCandidates e1 s' = Some s')"
proof -
  let ?b = "fold (addIceCandidate e0) cs s"
  have b: "?b = s\<lparr> pendingCandidates := pendingCandidates s @ cs \<rparr>"
    using assms(2) by (rule buffer_many)
  let ?s1 = "perform (RtcSetRemote (pid p) answer) (?b\<lparr> isSettingRemoteDescription := True \<rparr>)"
  have "setRemoteDescription_begin e answer ?b = Paused (pid p) ?s1"
    using assms(1,3,4) b by (intro begin_first) simp_all
  then have run: "setRemoteDescription e answer ?b = setRemoteDescription_resume e (pid p) ?s1"
    by (simp add: setRemoteDescription_def)
  have s1: "peer ?s1 = Some p" "pendingCandidates ?s1 = pendingCandidates s @ cs"
    "applied ?s1 = applied s"
    using assms(1) b by (simp_all add: perform_def applied_def)
  from resume_accepted [OF s1(1) assms(5,6)] obtain s' where
    "setRemoteDescription_resume e (pid p) ?s1 = Some s'" "pendingCandidates s' = []"
    "applied s' = applied s @ map (Pair (pid p)) (pendingCandidates s @ cs)"
    using s1 by auto
  then show ?thesis
    using run b by (auto simp: applied_def processPendingCandidates_def)
qed

theorem pending_candidates_fifo_witness:
  "peer in_call = Some (the (peer in_call)) \<and> \<not> has_remote in_call \<and>
   \<not> isSettingRemoteDescription in_call \<and>
   signalingState (the (peer in_call)) \<in> {Stable, HaveLocalOffer} \<and>
   rtcSetRemote accepting = Some (Stable, Some an_answer) \<and> dtype an_answer \<noteq> [] \<and>
   (\<exists>s'. setRemoteDescription accepting an_answer
            (fold (addIceCandidate accepting) [''c1'', ''c2'', ''c3''] in_call) = Some s' \<and>
         applied s' = [(0, ''c1''), (0, ''c2''), (0, ''c3'')] \<and> pendingCandidates s' = [])"
proof -
  have e: "rtcSetRemote accepting = Some (Stable, Some an_answer)" "dtype an_answer \<noteq> []"
    by (simp_all add: accepting_def an_answer_def)
  have g: "signalingState (the (peer in_call)) \<in> {Stable, HaveLocalOffer}"
    by (simp add: in_call_facts)
  have a: "applied in_call = []" by (simp add: applied_def in_call_eq)
  show ?thesis
    using pending_candidates_fifo [OF in_call_peer in_call_facts(4) in_call_facts(1) g e,
        of accepting "[''c1'', ''c2'', ''c3'']" an_answer accepting]
      in_call_peer in_call_facts e g a
    by auto
qed

text \<open>
  Claim C4. A first call that reaches the browser (a connection object exists, no set is in
  flight, the signaling state is one of the two legal ones) raises the flag, makes one
  underlying set and waits. In the state it waits in, a second call, with any description
  and whatever the browser would answer, returns at once and normally with that state
  unchanged: it adds nothing to the trace, so no error and no second underlying set. When
  the first call completes, after the browser accepted or rejected, the flag is down and the
  trace still holds that one underlying set; after a rejection it always completes.
\<close>

theorem setRemoteDescription_exclusive:
  assumes "peer s = Some p" "\<not> isSettingRemoteDescription s"
    "signalingState p \<in> {Stable, HaveLocalOffer}"
  shows "\<exists>s1. setRemoteDescription_begin e a s = Paused (pid p) s1 \<and>
              isSettingRemoteDescription s1 \<and>
              sets s1 = sets s @ [(pid p, a)] \<and>
              setRemoteDescription_begin e2 a2 s1 = Returned s1 \<and>
              setRemoteDescription e2 a2 s1 = Some s1 \<and>
              (\<forall>s2. setRemoteDescription_resume e (pid p) s1 = Some s2 \<longrightarrow>
                    \<not> isSettingRemoteDescription s2 \<and> sets s2 = sets s @ [(pid p, a)]) \<and>
              (rtcSetRemote e = None \<or>
               (\<exists>g d. rtcSetRemote e = Some (g, Some d) \<and> dtype d \<noteq> []) \<longrightarrow>
                 (\<exists>s2. setRemoteDescription_resume e (pid p) s1 = Some s2))"
proof -
  let ?s1 = "perform (RtcSetRemote (pid p) a) (s\<lparr> isSettingRemoteDescription := True \<rparr>)"
  have b: "setRemoteDescription_begin e a s = Paused (pid p) ?s1"
    using assms by (rule begin_first)
  have f: "isSettingRemoteDescription ?s1" by (simp add: perform_def)
  have t: "sets ?s1 = sets s @ [(pid p, a)]"
    by (simp add: sets_perform) (simp add: sets_def)
  have r: "setRemoteDescription_begin e2 a2 ?s1 = Returned ?s1"
    using f by (rule begin_in_flight)
  have r': "setRemoteDescription e2 a2 ?s1 = Some ?s1"
    by (simp add: setRemoteDescription_def r)
  have p1: "peer ?s1 = Some p" using assms(1) by (simp add: perform_def)
  have c: "\<exists>s2. setRemoteDescription_resume e (pid p) ?s1 = Some s2"
    if "rtcSetRemote e = None \<or> (\<exists>g d. rtcSetRemote e = Some (g, Some d) \<and> dtype d \<noteq> [])"
    using that resume_rejected [of e "pid p" ?s1] resume_accepted [OF p1, of e]
    by blast
  show ?thesis
    using b f t r r' resume_completes [of e "pid p" ?s1] c
    by auto
qed

theorem setRemoteDescription_exclusive_witness:
  "peer in_call = Some (the (peer in_call)) \<and> \<not> isSettingRemoteDescription in_call \<and>
   signalingState (the (peer in_call)) \<in> {Stable, HaveLocalOffer} \<and>
   (\<exists>s1. setRemoteDescription_begin refusing an_answer in_call = Paused 0 s1 \<and>
         isSettingRemoteDescription s1 \<and> sets s1 = [(0, an_answer)] \<and>
         setRemoteDescription accepting an_answer s1 = Some s1 \<and>
         (\<exists>s2. setRemoteDescription_resume refusing 0 s1 = Some s2 \<and>
               \<not> isSettingRemoteDescription s2 \<and> sets s2 = [(0, an_answer)]) \<and>
         (\<exists>s2. setRemoteDescription_resume accepting 0 s1 = Some s2 \<and>
               \<not> isSettingRemoteDescription s2 \<and> sets s2 = [(0, an_answer)]))"
proof -
  have g: "signalingState (the (peer in_call)) \<in> {Stable, HaveLocalOffer}"
    by (simp add: in_call_facts)
  have t: "sets in_call = []" by (simp add: sets_def in_call_eq)
  have r: "rtcSetRemote refusing = None" by (simp add: refusing_def)
  have a: "\<exists>g d. rtcSetRemote accepting = Some (g, Some d) \<and> dtype d \<noteq> []"
    by (simp add: accepting_def)
  obtain s1 where 1:
    "setRemoteDescription_begin refusing an_answer in_call = Paused 0 s1"
    "isSettingRemoteDescription s1" "sets s1 = [(0, an_answer)]"
    "setRemoteDescription accepting an_answer s1 = Some s1"
    "\<forall>s2. setRemoteDescription_resume refusing 0 s1 = Some s2 \<longrightarrow>
          \<not> isSettingRemoteDescription s2 \<and> sets s2 = [(0, an_answer)]"
    "\<exists>s2. setRemoteDescription_resume refusing 0 s1 = Some s2"
    using setRemoteDescription_exclusive [OF in_call_peer in_call_facts(1) g,
        of refusing an_answer accepting an_answer] r t in_call_facts(3)
    by auto
  obtain s1' where 2:
    "setRemoteDescription_begin accepting an_answer in_call = Paused 0 s1'"
    "\<forall>s2. setRemoteDescription_resume accepting 0 s1' = Some s2 \<longrightarrow>
          \<not> isSettingRemoteDescription s2 \<and> sets s2 = [(0, an_answer)]"
    "\<exists>s2. setRemoteDescription_resume accepting 0 s1' = Some s2"
    using setRemoteDescription_exclusive [OF in_call_peer in_call_facts(1) g,
        of accepting an_answer accepting an_answer] a t in_call_facts(3)
    by auto
  have "s1' = s1"
    using 1(1) 2(1) begin_first [OF in_call_peer in_call_facts(1) g]
    by (simp add: in_call_facts(3))
  then show ?thesis
    using 1 2 in_call_peer in_call_facts(1) g by blast
qed

lemma set_needs_legal_state:
  assumes "setRemoteDescription e a s = Some s'" "sets s' \<noteq> sets s"
  shows "\<exists>p. peer s = Some p \<and> signalingState p \<in> {Stable, HaveLocalOffer}"
proof (cases "peer s")
  case None
  then show ?thesis using assms by (simp add: setRemoteDescription_def begin_without_peer)
next
  case (Some p)
  show ?thesis
  proof (cases "isSettingRemoteDescription s")
    case True
    then show ?thesis
      using assms by (simp add: setRemoteDescription_def begin_in_flight)
  next
    case False
    show ?thesis
    proof (cases "signalingState p \<in> {Stable, HaveLocalOffer}")
      case True
      then show ?thesis using Some by simp
    next
      case bad: False
      have "sets s' = sets (s\<lparr> isSettingRemoteDescription := True \<rparr>)"
        using assms(1) begin_invalid [OF Some False bad, of e a]
        by (auto simp: setRemoteDescription_def sets_failed)
      then show ?thesis using assms(2) by (simp add: sets_def)
    qed
  qed
qed

text \<open>
  Claim C5. A call that gets past the two guards (a connection object exists, no set is in
  flight) in a signaling state other than \<open>stable\<close> and \<open>have-local-offer\<close> makes no
  underlying set. It emits the error event of type \<open>remote-description\<close>, carrying the
  error that names the invalid signaling state, then runs \<^verbatim>\<open>handleConnectionFailure\<close> on
  the state so reached, lowers the flag and returns. Conversely, whenever a call returns
  with one more underlying set in the trace, the signaling state it started from was
  \<open>stable\<close> or \<open>have-local-offer\<close>.
\<close>

theorem setRemoteDescription_illegal_state:
  "(peer s = Some p \<and> \<not> isSettingRemoteDescription s \<and>
    signalingState p \<notin> {Stable, HaveLocalOffer} \<longrightarrow>
      (\<exists>s'. setRemoteDescription e a s = Some s' \<and>
            s' = (handleConnectionFailure e
                    (emit (ErrorEvent ''remote-description''
                             ''Connection failed. Please try again.''
                             (Some (JsError (''Invalid signaling state for remote description: ''
                                             @ signaling_name (signalingState p)))))
                       (s\<lparr> isSettingRemoteDescription := True \<rparr>)))
                   \<lparr> isSettingRemoteDescription := False \<rparr> \<and>
            sets s' = sets s \<and>
            (now s, Emit (ErrorEvent ''remote-description''
                            ''Connection failed. Please try again.''
                            (Some (JsError (''Invalid signaling state for remote description: ''
                                            @ signaling_name (signalingState p))))))
              \<in> set (trace s'))) \<and>
   (\<forall>s'. setRemoteDescription e a s = Some s' \<and> sets s' \<noteq> sets s \<longrightarrow>
         (\<exists>q. peer s = Some q \<and> signalingState q \<in> {Stable, HaveLocalOffer}))"
proof (intro conjI impI allI)
  assume h: "peer s = Some p \<and> \<not> isSettingRemoteDescription s \<and>
             signalingState p \<notin> {Stable, HaveLocalOffer}"
  let ?err = "JsError (''Invalid signaling state for remote description: ''
                       @ signaling_name (signalingState p))"
  let ?ev = "ErrorEvent ''remote-description'' ''Connection failed. Please try again.''
               (Some ?err)"
  let ?s1 = "s\<lparr> isSettingRemoteDescription := True \<rparr>"
  let ?s' = "setRemoteDescription_failed e ?err ?s1"
  have run: "setRemoteDescription e a s = Some ?s'"
    using h begin_invalid [of s p e a] by (simp add: setRemoteDescription_def)
  have st: "sets ?s' = sets s" by (simp add: sets_failed) (simp add: sets_def)
  have "extends_by recovery_effect (emit ?ev ?s1) (handleConnectionFailure e (emit ?ev ?s1))"
    by (rule extends_by_hcf) auto
  then have "(now ?s1, Emit ?ev) \<in> set (trace (handleConnectionFailure e (emit ?ev ?s1)))"
    by (rule emit_in_trace)
  then have ev: "(now s, Emit ?ev) \<in> set (trace ?s')"
    by (simp add: setRemoteDescription_failed_def)
  show "\<exists>s'. setRemoteDescription e a s = Some s' \<and>
            s' = (handleConnectionFailure e (emit ?ev ?s1))\<lparr> isSettingRemoteDescription := False \<rparr> \<and>
            sets s' = sets s \<and> (now s, Emit ?ev) \<in> set (trace s')"
    using run st ev by (simp add: setRemoteDescription_failed_def)
next
  fix s'
  assume "setRemoteDescription e a s = Some s' \<and> sets s' \<noteq> sets s"
  then show "\<exists>q. peer s = Some q \<and> signalingState q \<in> {Stable, HaveLocalOffer}"
    using set_needs_legal_state by blast
qed

theorem setRemoteDescription_illegal_state_witness:
  "peer glare = Some (the (peer glare)) \<and> \<not> isSettingRemoteDescription glare \<and>
   signalingState (the (peer glare)) \<notin> {Stable, HaveLocalOffer} \<and>
   (\<exists>s'. setRemoteDescription accepting an_answer glare = Some s' \<and>
         sets s' = sets glare \<and>
         (now glare, Emit (ErrorEvent ''remote-description''
                            ''Connection failed. Please try again.''
                            (Some (JsError ''Invalid signaling state for remote description: have-remote-offer''))))
           \<in> set (trace s')) \<and>
   (\<exists>s'. setRemoteDescription accepting an_answer in_call = Some s' \<and>
         sets s' \<noteq> sets in_call) \<and>
   (\<exists>q. peer in_call = Some q \<and> signalingState q \<in> {Stable, HaveLocalOffer})"
proof -
  have p: "peer glare = Some (the (peer glare))"
    and f: "\<not> isSettingRemoteDescription glare"
    and g: "signalingState (the (peer glare)) = HaveRemoteOffer"
    by (simp_all add: glare_def browser_signaling_def in_call_eq constructor_def)
  have n: "signaling_name HaveRemoteOffer = ''have-remote-offer''"
    by (simp add: signaling_name_def)
  have "case setRemoteDescription accepting an_answer in_call of
          None \<Rightarrow> False | Some s' \<Rightarrow> sets s' \<noteq> sets in_call"
    by code_simp
  then have ok: "\<exists>s'. setRemoteDescription accepting an_answer in_call = Some s' \<and>
         sets s' \<noteq> sets in_call"
    by (simp split: option.splits)
  obtain s' where s': "setRemoteDescription accepting an_answer in_call = Some s'"
    "sets s' \<noteq> sets in_call"
    using ok by blast
  have 1: "\<exists>s'. setRemoteDescription accepting an_answer glare = Some s' \<and>
         sets s' = sets glare \<and>
         (now glare, Emit (ErrorEvent ''remote-description''
                            ''Connection failed. Please try again.''
                            (Some (JsError ''Invalid signaling state for remote description: have-remote-offer''))))
           \<in> set (trace s')"
    using setRemoteDescription_illegal_state [of glare "the (peer glare)" accepting an_answer]
      p f g n
    by auto
  have 2: "\<exists>q. peer in_call = Some q \<and> signalingState q \<in> {Stable, HaveLocalOffer}"
    using setRemoteDescription_illegal_state [of in_call "the (peer in_call)" accepting an_answer]
      s'
    by blast
  show ?thesis using p f g 1 ok 2 by simp
qed

subsection \<open>The attempt counter\<close>

lemma bounded_upd [simp]:
  "bounded (s\<lparr> peer := v0 \<rparr>) = bounded s"
  "bounded (s\<lparr> roomId := v1 \<rparr>) = bounded s"
  "bounded (s\<lparr> socket := v2 \<rparr>) = bounded s"
  "bounded (s\<lparr> reconnectDelay := v3 \<rparr>) = bounded s"
  "bounded (s\<lparr> isReconnecting := v4 \<rparr>) = bounded s"
  "bounded (s\<lparr> isSettingRemoteDescription := v5 \<rparr>) = bounded s"
  "bounded (s\<lparr> senders := v6 \<rparr>) = bounded s"
  "bounded (s\<lparr> pendingCandidates := v7 \<rparr>) = bounded s"
  "bounded (s\<lparr> streamTracking := v8 \<rparr>) = bounded s"
  "bounded (s\<lparr> remotePeerId := v9 \<rparr>) = bounded s"
  "bounded (s\<lparr> lastUsedConfig := v10 \<rparr>) = bounded s"
  "bounded (s\<lparr> iceTimeout := v11 \<rparr>) = bounded s"
  "bounded (s\<lparr> infos := v12 \<rparr>) = bounded s"
  "bounded (s\<lparr> nextInfo := v13 \<rparr>) = bounded s"
  "bounded (s\<lparr> timers := v14 \<rparr>) = bounded s"
  "bounded (s\<lparr> nextTimer := v15 \<rparr>) = bounded s"
  "bounded (s\<lparr> nextPid := v16 \<rparr>) = bounded s"
  "bounded (s\<lparr> now := v17 \<rparr>) = bounded s"
  "bounded (s\<lparr> trace := v18 \<rparr>) = bounded s"
  by (simp_all add: bounded_def)

lemma bounded_reset [simp]: "bounded (s\<lparr> reconnectAttempts := 0 \<rparr>) \<longleftrightarrow> maxReconnectAttempts s = 5"
  by (simp add: bounded_def)

lemma bounded_max: "bounded s \<Longrightarrow> maxReconnectAttempts s = 5"
  by (simp add: bounded_def)

lemma bounded_prims [simp]:
  "bounded (perform x s) = bounded s"
  "bounded (emit ev s) = bounded s"
  "bounded (snd (setTimeout c d s)) = bounded s"
  "bounded (clearTimeout t s) = bounded s"
  "bounded (clear_if_set h s) = bounded s"
  "bounded (update_info a f s) = bounded s"
  "bounded (setupPeerEvents s) = bounded s"
  "bounded (browser_applies i r s) = bounded s"
  "bounded (initializeWithTurn_request s) = bounded s"
  by (simp_all add: base_defs update_info_def setupPeerEvents_def browser_applies_def
      initializeWithTurn_request_def split: option.splits)

lemma bounded_cleanup [simp]: "bounded (cleanup s) \<longleftrightarrow> maxReconnectAttempts s = 5"
  by (simp add: cleanup_eq)

lemma bounded_create [simp]: "bounded (final (createPeerConnection e c s)) = bounded s"
  by (simp add: createPeerConnection_def)

lemma bounded_stun [simp]: "bounded (final (initializeWithStun e s)) = bounded s"
  by (simp add: initializeWithStun_def)

lemma bounded_turn_response [simp]: "bounded (final (initializeWithTurn_response e s)) = bounded s"
proof (cases "fetchTurn e")
  case (Credentials cr)
  have "bounded (final (createPeerConnection e (turn_config cr) s)) = bounded s"
    by simp
  then show ?thesis
    using Credentials
    by (cases "createPeerConnection e (turn_config cr) s")
       (auto simp: initializeWithTurn_response_def turn_failed_def)
qed (simp_all add: initializeWithTurn_response_def turn_failed_def)

lemma bounded_turn [simp]: "bounded (final (initializeWithTurn e s)) = bounded s"
  by (simp add: initializeWithTurn_def)

lemma bounded_schedule: "bounded s \<Longrightarrow> bounded (schedule_reconnect s)"
  by (simp add: schedule_reconnect_def Let_def) (simp add: bounded_def)

lemma bounded_failure_begin:
  "bounded s \<Longrightarrow> bounded (state_of (handleConnectionFailure_begin s))"
  by (auto simp: handleConnectionFailure_begin_def Let_def bounded_schedule bounded_max)

lemma bounded_failure_resume:
  assumes "bounded s"
  shows "bounded (handleConnectionFailure_resume e k s)"
proof -
  have "bounded (final (initializeWithTurn_response e s))" using assms by simp
  then show ?thesis
    by (cases "initializeWithTurn_response e s")
       (auto simp: handleConnectionFailure_resume_def Let_def bounded_schedule)
qed

lemma bounded_failure: "bounded s \<Longrightarrow> bounded (handleConnectionFailure e s)"
  using bounded_failure_begin [of s] bounded_failure_resume [of _ e]
  by (auto simp: handleConnectionFailure_def split: paused.splits)

lemma bounded_finish: "bounded (final r) \<Longrightarrow> bounded (reconnect_finish k r)"
  by (cases r) (auto simp: reconnect_finish_def Let_def)

lemma bounded_attempt_begin:
  "bounded s \<Longrightarrow> bounded (state_of (reconnect_attempt_begin e s))"
  by (auto simp: reconnect_attempt_begin_def Let_def bounded_max intro!: bounded_finish)

lemma bounded_attempt_resume: "bounded s \<Longrightarrow> bounded (reconnect_attempt_resume e s)"
  by (simp add: reconnect_attempt_resume_def bounded_finish)

lemma bounded_attempt: "bounded s \<Longrightarrow> bounded (reconnect_attempt e s)"
  using bounded_attempt_begin [of s e] bounded_attempt_resume [of _ e]
  by (auto simp: reconnect_attempt_def split: paused.splits)

lemma bounded_addIceCandidate [simp]: "bounded (addIceCandidate e c s) = bounded s"
  by (simp add: addIceCandidate_def Let_def)

lemma bounded_drain:
  assumes "drain e s = Some s'" "bounded s"
  shows "bounded s'"
  using assms(2)
proof (induction rule: drain.raw_induct [OF _ assms(1)])
  case (1 drain' e s s')
  show ?case
  proof (cases "pendingCandidates s")
    case Nil
    then show ?thesis using 1 by simp
  next
    case (Cons c cs)
    then show ?thesis
      using 1(1) [of e "addIceCandidate e c (s\<lparr> pendingCandidates := cs \<rparr>)" s'] 1(2,3)
        drain_step [OF Cons, of e]
      by simp
  qed
qed

lemma bounded_processPending:
  "processPendingCandidates e s = Some s' \<Longrightarrow> bounded s \<Longrightarrow> bounded s'"
  by (auto simp: processPendingCandidates_def bounded_drain split: if_splits)

lemma bounded_srd_failed: "bounded s \<Longrightarrow> bounded (setRemoteDescription_failed e err s)"
  by (simp add: setRemoteDescription_failed_def bounded_failure)

lemma bounded_srd_begin:
  "bounded s \<Longrightarrow> bounded (state_of (setRemoteDescription_begin e d s))"
  by (auto simp: setRemoteDescription_begin_def Let_def bounded_srd_failed split: option.splits)

lemma bounded_srd_resume:
  "setRemoteDescription_resume e i s = Some s' \<Longrightarrow> bounded s \<Longrightarrow> bounded s'"
  by (auto simp: setRemoteDescription_resume_def bounded_srd_failed
      split: option.splits dest!: bounded_processPending)

lemma bounded_srd:
  "setRemoteDescription e d s = Some s' \<Longrightarrow> bounded s \<Longrightarrow> bounded s'"
  using bounded_srd_begin [of s e d]
  by (auto simp: setRemoteDescription_def split: paused.splits dest: bounded_srd_resume)

lemma bounded_createOffer: "bounded s \<Longrightarrow> bounded (final (createOffer e s))"
  by (auto simp: createOffer_def Let_def bounded_failure split: option.splits)

lemma bounded_createAnswer: "bounded s \<Longrightarrow> bounded (final (createAnswer e d s))"
  by (auto simp: createAnswer_def Let_def bounded_failure split: option.splits)

lemma bounded_initializeConnection [simp]:
  "bounded (final (initializeConnection e s)) = bounded s"
proof -
  have "bounded (final (initializeWithStun e s)) = bounded s" by simp
  then show ?thesis
    by (cases "initializeWithStun e s") (auto simp: initializeConnection_def)
qed

lemma bounded_initializePeer: "bounded s \<Longrightarrow> bounded (final (initializePeer e room s))"
  by (simp add: initializePeer_def bounded_max)

lemma bounded_handleIncomingTrack [simp]: "bounded (handleIncomingTrack ev s) = bounded s"
  by (auto simp: handleIncomingTrack_def get_or_create_def setTimeout_def Let_def
      split: list.splits option.splits prod.splits)

lemma bounded_fold:
  "(\<And>x s. bounded (f x s) = bounded s) \<Longrightarrow> bounded (fold f xs s) = bounded s"
  by (induction xs arbitrary: s) auto

lemma bounded_addTracks [simp]: "bounded (addTracks e st s) = bounded s"
proof (cases "peer s")
  case None
  then show ?thesis by (simp add: addTracks_def)
next
  case (Some p)
  show ?thesis
  proof (cases st)
    case None
    then show ?thesis using Some by (simp add: addTracks_def)
  next
    case tr: (Some tracks)
    have 1: "bounded (fold (\<lambda>(k, sender) s'. perform (RtcRemoveTrack (pid p) sender) s')
                       (senders s) s) = bounded s"
      by (rule bounded_fold) (simp split: prod.splits)
    show ?thesis
      using Some tr 1
      by (simp add: addTracks_def Let_def)
         (subst bounded_fold; simp split: prod.splits)
  qed
qed

lemma bounded_small [simp]:
  "bounded (setRemotePeer i s) = bounded s"
  "bounded (setSocket s) = bounded s"
  "bounded (socket_ice_candidate e c room s) = bounded s"
  "bounded (switchMediaSource e st s) = bounded s"
  "bounded (browser_signaling g s) = bounded s"
  "bounded (browser_track ev s) = bounded s"
  "bounded (browser_candidate c s) = bounded s"
  "bounded (debounce_fired a s) = bounded s"
  by (simp_all add: setRemotePeer_def setSocket_def socket_ice_candidate_def
      switchMediaSource_def browser_signaling_def browser_track_def browser_candidate_def
      on_icecandidate_def debounce_fired_def split: option.splits)

lemma bounded_on_ice: "bounded s \<Longrightarrow> bounded (on_iceconnectionstatechange e s)"
  by (auto simp: on_iceconnectionstatechange_def setTimeout_def Let_def bounded_failure bounded_max
      split: option.splits ice_state.splits)

lemma bounded_on_connection: "bounded s \<Longrightarrow> bounded (on_connectionstatechange e s)"
  by (auto simp: on_connectionstatechange_def bounded_failure
      split: option.splits conn_state.splits)

lemma bounded_browser_ice: "bounded s \<Longrightarrow> bounded (browser_ice e i s)"
  by (auto simp: browser_ice_def Let_def bounded_on_ice split: option.splits)

lemma bounded_browser_connection: "bounded s \<Longrightarrow> bounded (browser_connection e c s)"
  by (auto simp: browser_connection_def Let_def bounded_on_connection split: option.splits)

lemma bounded_fire: "bounded s \<Longrightarrow> bounded (fire e tm s)"
  by (auto simp: fire_def run_callback_def bounded_failure bounded_attempt
      split: callback.splits)

lemma reachable_bounded: "reachable s \<Longrightarrow> bounded s"
proof (induction rule: reachable.induct)
  case r_constructor
  then show ?case by (simp add: bounded_def constructor_def)
qed (simp_all add: bounded_processPending bounded_createOffer bounded_createAnswer bounded_srd
    bounded_srd_begin bounded_srd_resume bounded_initializePeer bounded_failure
    bounded_failure_begin bounded_failure_resume bounded_attempt_begin bounded_attempt_resume
    bounded_max bounded_browser_ice bounded_browser_connection bounded_fire)

lemma in_call_reachable: "reachable in_call"
  unfolding in_call_def
  by (rule r_setRemotePeer, rule r_initializePeer, rule r_constructor)

lemma failure_at_bound:
  assumes "maxReconnectAttempts s = 5" "maxReconnectAttempts s \<le> reconnectAttempts s"
  shows "handleConnectionFailure e s =
           (if isReconnecting s then s
            else emit (ErrorEvent ''reconnect''
                         ''Connection failed. Please refresh and try again.'' None) s)"
  using assms
  by (simp add: handleConnectionFailure_def handleConnectionFailure_begin_def
      schedule_reconnect_def)

text \<open>
  The session whose counter stands at the bound: what the six overlapping calls leave, step
  by step.
\<close>

lemma delays_clear [simp]: "delays (map (\<lambda>t. (n, ClearTimeout t)) hs) = []"
  by (induction hs) simp_all

lemma begin_again:
  assumes "\<not> isReconnecting s" "reconnectAttempts s = 0" "lastUsedConfig s = None"
    "maxReconnectAttempts s = 5"
  shows "\<not> isReconnecting (state_of (handleConnectionFailure_begin s)) \<and>
    reconnectAttempts (state_of (handleConnectionFailure_begin s)) = 0 \<and>
    lastUsedConfig (state_of (handleConnectionFailure_begin s)) = None \<and>
    maxReconnectAttempts (state_of (handleConnectionFailure_begin s)) = 5 \<and>
    delays (trace (state_of (handleConnectionFailure_begin s))) = delays (trace s)"
  using assms
  by (simp add: handleConnectionFailure_begin_def initializeWithTurn_request_def perform_def
      cleanup_eq Let_def delays_append split: option.splits)

lemma begin_n:
  "\<not> isReconnecting (((\<lambda>s. state_of (handleConnectionFailure_begin s)) ^^ n) in_call) \<and>
   reconnectAttempts (((\<lambda>s. state_of (handleConnectionFailure_begin s)) ^^ n) in_call) = 0 \<and>
   lastUsedConfig (((\<lambda>s. state_of (handleConnectionFailure_begin s)) ^^ n) in_call) = None \<and>
   maxReconnectAttempts (((\<lambda>s. state_of (handleConnectionFailure_begin s)) ^^ n) in_call) = 5 \<and>
   delays (trace (((\<lambda>s. state_of (handleConnectionFailure_begin s)) ^^ n) in_call)) = []"
proof (induction n)
  case 0
  show ?case by (simp add: in_call_eq constructor_def)
next
  case (Suc n)
  then show ?case using begin_again [of "((\<lambda>s. state_of (handleConnectionFailure_begin s)) ^^ n) in_call"]
    by simp
qed

lemma refused_below:
  assumes "maxReconnectAttempts s = 5" "reconnectAttempts s < 5"
  shows "reconnectAttempts (handleConnectionFailure_resume refusing k s) = reconnectAttempts s + 1"
    "maxReconnectAttempts (handleConnectionFailure_resume refusing k s) = 5"
    "isReconnecting (handleConnectionFailure_resume refusing k s)"
    "delays (trace (handleConnectionFailure_resume refusing k s)) =
       delays (trace s) @ [backoff_delay (reconnectAttempts s + 1)]"
    "exhausted (trace (handleConnectionFailure_resume refusing k s)) = exhausted (trace s)"
  using assms
  by (simp_all add: handleConnectionFailure_resume_def initializeWithTurn_response_def
      refusing_def turn_failed_def schedule_reconnect_def base_defs delays_append exhausted_append)

lemma refused_at_bound:
  assumes "maxReconnectAttempts s = 5" "reconnectAttempts s = 5"
  shows "reconnectAttempts (handleConnectionFailure_resume refusing k s) = 5"
    "maxReconnectAttempts (handleConnectionFailure_resume refusing k s) = 5"
    "\<not> isReconnecting (handleConnectionFailure_resume refusing k s)"
    "delays (trace (handleConnectionFailure_resume refusing k s)) = delays (trace s)"
    "exhausted (trace (handleConnectionFailure_resume refusing k s))"
  using assms
  by (simp_all add: handleConnectionFailure_resume_def initializeWithTurn_response_def
      refusing_def turn_failed_def schedule_reconnect_def base_defs delays_append exhausted_append)

lemma six_waits_eq:
  "reconnectAttempts six_waits = 0" "maxReconnectAttempts six_waits = 5"
  "delays (trace six_waits) = []"
  using begin_n [of 6] by (simp_all add: six_waits_def)

lemma refused_n:
  assumes "maxReconnectAttempts s = 5" "reconnectAttempts s + n \<le> 5"
  shows "reconnectAttempts ((handleConnectionFailure_resume refusing k ^^ n) s) =
           reconnectAttempts s + n \<and>
         maxReconnectAttempts ((handleConnectionFailure_resume refusing k ^^ n) s) = 5 \<and>
         delays (trace ((handleConnectionFailure_resume refusing k ^^ n) s)) =
           delays (trace s) @ map backoff_delay [Suc (reconnectAttempts s)..<Suc (reconnectAttempts s + n)]"
  using assms(2)
proof (induction n)
  case 0
  show ?case using assms by simp
next
  case (Suc n)
  then show ?case
    using refused_below [of "(handleConnectionFailure_resume refusing k ^^ n) s" k]
    by simp
qed

lemma counted_out_eq:
  "reconnectAttempts counted_out = 5" "maxReconnectAttempts counted_out = 5"
  "\<not> isReconnecting counted_out" "exhausted (trace counted_out)"
  "delays (trace counted_out) = [1000, 2000, 4000, 8000, 10000]"
proof -
  define s1 where "s1 = handleConnectionFailure_resume refusing (Some ''bob'', Some ''room-1'') six_waits"
  define s5 where "s5 = (handleConnectionFailure_resume refusing (None, None) ^^ 4) s1"
  have 1: "reconnectAttempts s1 = 1" "maxReconnectAttempts s1 = 5" "delays (trace s1) = [1000]"
    by (simp_all add: s1_def refused_below six_waits_eq backoff_delay_def)
  have 5: "reconnectAttempts s5 = 5" "maxReconnectAttempts s5 = 5"
    "delays (trace s5) = [1000, 2000, 4000, 8000, 10000]"
    using refused_n [of s1 4 "(None, None)"]
    by (simp_all add: s5_def 1 upt_conv_Cons backoff_delay_def)
  have c: "counted_out = handleConnectionFailure_resume refusing (None, None) s5"
    by (simp add: counted_out_def s5_def s1_def eval_nat_numeral)
  show "reconnectAttempts counted_out = 5" "maxReconnectAttempts counted_out = 5"
    "\<not> isReconnecting counted_out" "exhausted (trace counted_out)"
    "delays (trace counted_out) = [1000, 2000, 4000, 8000, 10000]"
    by (simp_all add: c refused_at_bound 5)
qed

lemma counted_out_reachable: "reachable counted_out"
proof -
  have b: "reachable (((\<lambda>s. state_of (handleConnectionFailure_begin s)) ^^ n) in_call)" for n
    by (induction n) (simp_all add: in_call_reachable r_failure_begin)
  have r: "reachable s \<Longrightarrow> reachable ((handleConnectionFailure_resume refusing k ^^ n) s)" for n s k
    by (induction n) (simp_all add: r_failure_resume)
  show ?thesis
    unfolding counted_out_def six_waits_def by (rule r, rule r_failure_resume, rule b)
qed




subsection \<open>The bookkeeping of timers, and teardown\<close>

lemma tracked_iff:
  "debounce_tracked s \<longleftrightarrow>
     (\<forall>tm \<in> set (timers s). is_debounce tm \<longrightarrow> tid tm \<in> set (debounce_handles s))"
  by (auto simp: debounce_tracked_def is_debounce_def list_all_iff split: callback.splits)

lemma in_handles:
  "x \<in> set (debounce_handles s) \<longleftrightarrow>
     (\<exists>sid a. (sid, a) \<in> set (streamTracking s) \<and>
        truthy_id (timeoutId (infos s a)) \<and> x = the (timeoutId (infos s a)))"
  unfolding debounce_handles_def handle_of_def by force

lemma tracked_gone:
  assumes "debounce_tracked s"
  shows "list_all (\<lambda>tm. \<not> is_debounce tm) (timers (cleanup s))"
  using assms
  by (auto simp: debounce_tracked_def is_debounce_def cleanup_fields list_all_iff
      split: callback.splits)

lemma update_info_fields [simp]:
  "nextTimer (update_info a f s) = nextTimer s"
  "nextInfo (update_info a f s) = nextInfo s"
  "timers (update_info a f s) = timers s"
  "streamTracking (update_info a f s) = streamTracking s"
  by (simp_all add: update_info_def)

lemma tidy_iff:
  "tidy s \<longleftrightarrow>
     0 < nextTimer s \<and>
     (\<forall>tm \<in> set (timers s). 0 < tid tm \<and> tid tm < nextTimer s) \<and>
     distinct (map tid (timers s)) \<and>
     distinct (map fst (streamTracking s)) \<and>
     (\<forall>(sid, a) \<in> set (streamTracking s).
        a < nextInfo s \<and> stream (infos s a) = sid \<and>
        (\<forall>h. timeoutId (infos s a) = Some h \<longrightarrow> h < nextTimer s)) \<and>
     (\<forall>tm \<in> set (timers s). \<forall>a. callback tm = TrackDebounce a \<longrightarrow>
        (stream (infos s a), a) \<in> set (streamTracking s) \<and>
        timeoutId (infos s a) = Some (tid tm)) \<and>
     (\<forall>tm \<in> set (timers s). \<forall>(sid, a) \<in> set (streamTracking s).
        timeoutId (infos s a) = Some (tid tm) \<longrightarrow> callback tm = TrackDebounce a)"
proof -
  have 1: "(case timeoutId i of None \<Rightarrow> True | Some h \<Rightarrow> h < n) \<longleftrightarrow>
           (\<forall>h. timeoutId i = Some h \<longrightarrow> h < n)" for i :: tracking_info and n
    by (cases "timeoutId i") auto
  have 2: "(case c of TrackDebounce a \<Rightarrow> P a | _ \<Rightarrow> True) \<longleftrightarrow>
           (\<forall>a. c = TrackDebounce a \<longrightarrow> P a)" for c P
    by (cases c) auto
  show ?thesis
    unfolding tidy_def list_all_iff 1 2 by (simp add: case_prod_unfold) blast
qed


lemma tidy_upd [simp]:
  "tidy (s\<lparr> peer := v0 \<rparr>) = tidy s"
  "tidy (s\<lparr> roomId := v1 \<rparr>) = tidy s"
  "tidy (s\<lparr> socket := v2 \<rparr>) = tidy s"
  "tidy (s\<lparr> reconnectDelay := v3 \<rparr>) = tidy s"
  "tidy (s\<lparr> isReconnecting := v4 \<rparr>) = tidy s"
  "tidy (s\<lparr> isSettingRemoteDescription := v5 \<rparr>) = tidy s"
  "tidy (s\<lparr> senders := v6 \<rparr>) = tidy s"
  "tidy (s\<lparr> pendingCandidates := v7 \<rparr>) = tidy s"
  "tidy (s\<lparr> reconnectAttempts := v8 \<rparr>) = tidy s"
  "tidy (s\<lparr> remotePeerId := v9 \<rparr>) = tidy s"
  "tidy (s\<lparr> lastUsedConfig := v10 \<rparr>) = tidy s"
  "tidy (s\<lparr> iceTimeout := v11 \<rparr>) = tidy s"
  "tidy (s\<lparr> maxReconnectAttempts := v12 \<rparr>) = tidy s"
  "tidy (s\<lparr> nextPid := v16 \<rparr>) = tidy s"
  "tidy (s\<lparr> now := v17 \<rparr>) = tidy s"
  "tidy (s\<lparr> trace := v18 \<rparr>) = tidy s"
  by (simp_all add: tidy_iff)

lemma tidy_prims [simp]:
  "tidy (perform x s) = tidy s"
  "tidy (emit ev s) = tidy s"
  "tidy (setupPeerEvents s) = tidy s"
  "tidy (browser_applies i r s) = tidy s"
  "tidy (initializeWithTurn_request s) = tidy s"
  by (simp_all add: base_defs setupPeerEvents_def browser_applies_def
      initializeWithTurn_request_def split: option.splits)

lemma tidy_setTimeout [simp]:
  assumes "\<not> is_debounce \<lparr> tid = nextTimer s, due = now s + d, callback = c \<rparr>" "tidy s"
  shows "tidy (snd (setTimeout c d s))"
proof -
  define r where "r = snd (setTimeout c d s)"
  have f: "nextTimer r = Suc (nextTimer s)" "nextInfo r = nextInfo s"
    "streamTracking r = streamTracking s" "infos r = infos s"
    "timers r = timers s @ [\<lparr> tid = nextTimer s, due = now s + d, callback = c \<rparr>]"
    by (simp_all add: r_def setTimeout_def perform_def)
  have c: "c \<noteq> TrackDebounce a" for a
    using assms(1) by (auto simp: is_debounce_def)
  note n = assms(2) [unfolded tidy_iff]
  have "tidy r"
    unfolding tidy_iff f using n c by (fastforce simp: less_Suc_eq)
  then show ?thesis by (simp add: r_def)
qed

lemma tidy_clearTimeout [simp]: "tidy s \<Longrightarrow> tidy (clearTimeout t s)"
  by (auto simp: tidy_iff clearTimeout_def perform_def distinct_map_filter)

lemma tidy_clear_if_set [simp]: "tidy s \<Longrightarrow> tidy (clear_if_set h s)"
  by (simp add: clear_if_set_def)

lemma tidy_remove: "tidy s \<Longrightarrow> tidy (s\<lparr> timers := filter P (timers s) \<rparr>)"
  by (auto simp: tidy_iff distinct_map_filter)

lemma tidy_tracked:
  assumes "tidy s"
  shows "debounce_tracked s"
proof -
  have "tid tm \<in> set (debounce_handles s)" if m: "tm \<in> set (timers s)" and d: "is_debounce tm" for tm
  proof -
    obtain a where a: "callback tm = TrackDebounce a"
      using d by (auto simp: is_debounce_def split: callback.splits)
    have "(stream (infos s a), a) \<in> set (streamTracking s)"
      "timeoutId (infos s a) = Some (tid tm)" "0 < tid tm"
      using assms m a by (auto simp: tidy_iff)
    then have "(stream (infos s a), a) \<in> set (streamTracking s) \<and>
               truthy_id (timeoutId (infos s a)) \<and> tid tm = the (timeoutId (infos s a))"
      by (simp add: truthy_id_def)
    then show ?thesis unfolding in_handles by blast
  qed
  then show ?thesis by (simp add: tracked_iff)
qed

lemma tidy_cleanup [simp]:
  assumes "tidy s"
  shows "tidy (cleanup s)"
proof -
  have "\<not> is_debounce tm" if "tm \<in> set (timers (cleanup s))" for tm
    using tracked_gone [OF tidy_tracked [OF assms]] that by (simp add: list_all_iff)
  then have c: "callback tm \<noteq> TrackDebounce a" if "tm \<in> set (timers (cleanup s))" for tm a
    using that by (force simp: is_debounce_def)
  have f: "nextTimer (cleanup s) = nextTimer s" by (simp add: cleanup_eq)
  have "0 < nextTimer (cleanup s)"
    "\<forall>tm \<in> set (timers (cleanup s)). 0 < tid tm \<and> tid tm < nextTimer (cleanup s)"
    "distinct (map tid (timers (cleanup s)))"
    using assms by (auto simp: f tidy_iff cleanup_fields distinct_map_filter)
  then show ?thesis
    using c by (simp add: tidy_iff cleanup_fields)
qed

lemma tidy_update_info:
  assumes "\<And>i. timeoutId (f i) = timeoutId i" "\<And>i. stream (f i) = stream i"
  shows "tidy (update_info a f s) = tidy s"
proof -
  have "timeoutId (infos (update_info a f s) x) = timeoutId (infos s x)"
    "stream (infos (update_info a f s) x) = stream (infos s x)" for x
    using assms by (simp_all add: update_info_def)
  then show ?thesis
    by (simp add: tidy_iff)
qed

lemma tidy_debounce_fired [simp]: "tidy s \<Longrightarrow> tidy (debounce_fired a s)"
  by (simp add: debounce_fired_def tidy_update_info)


lemma tidy_arm:
  assumes "tidy s" "(sid, a) \<in> set (streamTracking s)"
    "\<forall>tm \<in> set (timers s). callback tm \<noteq> TrackDebounce a"
  shows "tidy (update_info a (\<lambda>i. i\<lparr> timeoutId := Some (nextTimer s) \<rparr>)
                 (snd (setTimeout (TrackDebounce a) 1000 s)))"
proof -
  define new where "new = \<lparr> tid = nextTimer s, due = now s + 1000, callback = TrackDebounce a \<rparr>"
  define r where "r = update_info a (\<lambda>i. i\<lparr> timeoutId := Some (nextTimer s) \<rparr>)
              (snd (setTimeout (TrackDebounce a) 1000 s))"
  have f: "nextTimer r = Suc (nextTimer s)" "nextInfo r = nextInfo s"
    "streamTracking r = streamTracking s" "timers r = timers s @ [new]"
    by (simp_all add: r_def new_def update_info_def setTimeout_def perform_def)
  have i: "stream (infos r x) = stream (infos s x)"
    "timeoutId (infos r x) = (if x = a then Some (nextTimer s) else timeoutId (infos s x))" for x
    by (simp_all add: r_def update_info_def setTimeout_def perform_def)
  have nw: "tid new = nextTimer s" "callback new = TrackDebounce a"
    by (simp_all add: new_def)
  note n = assms(1) [unfolded tidy_iff]
  have 1: "0 < nextTimer r" by (simp add: f)
  have 2: "\<forall>tm \<in> set (timers r). 0 < tid tm \<and> tid tm < nextTimer r"
    using n by (auto simp: f nw less_Suc_eq)
  have 3: "distinct (map tid (timers r))"
    using n by (auto simp: f nw)
  have 4: "distinct (map fst (streamTracking r))"
    using n by (simp add: f)
  have 5: "\<forall>(sid, a) \<in> set (streamTracking r).
        a < nextInfo r \<and> stream (infos r a) = sid \<and>
        (\<forall>h. timeoutId (infos r a) = Some h \<longrightarrow> h < nextTimer r)"
    using n by (auto simp: f i less_Suc_eq)
  have st: "stream (infos s a) = sid" using n assms(2) by auto
  have 6: "\<forall>tm \<in> set (timers r). \<forall>a. callback tm = TrackDebounce a \<longrightarrow>
        (stream (infos r a), a) \<in> set (streamTracking r) \<and>
        timeoutId (infos r a) = Some (tid tm)"
  proof (intro ballI allI impI)
    fix tm a' assume tm: "tm \<in> set (timers r)" and c: "callback tm = TrackDebounce a'"
    show "(stream (infos r a'), a') \<in> set (streamTracking r) \<and>
        timeoutId (infos r a') = Some (tid tm)"
    proof (cases "tm = new")
      case True
      then show ?thesis using c assms(2) st by (simp add: nw f i)
    next
      case False
      then have m: "tm \<in> set (timers s)" using tm by (simp add: f)
      then have "a' \<noteq> a" using c assms(3) by auto
      then show ?thesis using n m c by (simp add: f i)
    qed
  qed
  have 7: "\<forall>tm \<in> set (timers r). \<forall>(sid, a) \<in> set (streamTracking r).
        timeoutId (infos r a) = Some (tid tm) \<longrightarrow> callback tm = TrackDebounce a"
  proof (intro ballI, clarify)
    fix tm sid' a' assume tm: "tm \<in> set (timers r)"
      and e: "(sid', a') \<in> set (streamTracking r)"
      and h: "timeoutId (infos r a') = Some (tid tm)"
    have e': "(sid', a') \<in> set (streamTracking s)" using e by (simp add: f)
    show "callback tm = TrackDebounce a'"
    proof (cases "tm = new")
      case True
      have "a' = a"
      proof (rule ccontr)
        assume "a' \<noteq> a"
        then have "timeoutId (infos s a') = Some (nextTimer s)"
          using h True by (simp add: i nw)
        then show False using n e' by fastforce
      qed
      then show ?thesis using True by (simp add: nw)
    next
      case False
      then have m: "tm \<in> set (timers s)" using tm by (simp add: f)
      then have lt: "tid tm < nextTimer s" using n by auto
      then have "a' \<noteq> a" using h by (auto simp: i)
      then have "timeoutId (infos s a') = Some (tid tm)" using h by (simp add: i)
      then show ?thesis using n m e' by fastforce
    qed
  qed
  have "tidy r"
    unfolding tidy_iff using 1 2 3 4 5 6 7 by blast
  then show ?thesis by (simp add: r_def)
qed

lemma tidy_rearm:
  assumes "tidy s" "(sid, a) \<in> set (streamTracking s)"
  shows "tidy (let s2 = (if k = ''audio'' then update_info a (\<lambda>i. i\<lparr> hasAudio := True \<rparr>) s
                         else if k = ''video'' then
                           update_info a (\<lambda>i. i\<lparr> hasVideo := True \<rparr>) s
                         else s);
                   s3 = clear_if_set (timeoutId (infos s2 a)) s2;
                   (t, s4) = setTimeout (TrackDebounce a) 1000 s3
               in update_info a (\<lambda>i. i\<lparr> timeoutId := Some t \<rparr>) s4)"
proof -
  define s2 where "s2 = (if k = ''audio'' then update_info a (\<lambda>i. i\<lparr> hasAudio := True \<rparr>) s
                         else if k = ''video'' then
                           update_info a (\<lambda>i. i\<lparr> hasVideo := True \<rparr>) s
                         else s)"
  define s3 where "s3 = clear_if_set (timeoutId (infos s2 a)) s2"
  have t2: "tidy s2" using assms(1) by (simp add: s2_def tidy_update_info)
  have m2: "(sid, a) \<in> set (streamTracking s2)" using assms(2) by (simp add: s2_def)
  have t3: "tidy s3" using t2 by (simp add: s3_def)
  have m3: "(sid, a) \<in> set (streamTracking s3)" "infos s3 = infos s2"
    using m2 by (simp_all add: s3_def clear_if_set_def clearTimeout_def perform_def)
  have c3: "\<forall>tm \<in> set (timers s3). callback tm \<noteq> TrackDebounce a"
  proof
    fix tm assume tm: "tm \<in> set (timers s3)"
    show "callback tm \<noteq> TrackDebounce a"
    proof
      assume c: "callback tm = TrackDebounce a"
      have "timeoutId (infos s3 a) = Some (tid tm)" "0 < tid tm"
        using t3 tm c by (auto simp: tidy_iff)
      then have "timeoutId (infos s2 a) = Some (tid tm)" "0 < tid tm"
        by (simp_all add: m3(2))
      then have "timers s3 = filter (\<lambda>x. tid x \<noteq> tid tm) (timers s2)"
        unfolding s3_def by (simp add: clear_if_set_def clearTimeout_def perform_def truthy_id_def)
      then show False using tm by simp
    qed
  qed
  have "tidy (update_info a (\<lambda>i. i\<lparr> timeoutId := Some (nextTimer s3) \<rparr>)
                 (snd (setTimeout (TrackDebounce a) 1000 s3)))"
    using t3 m3(1) c3 by (rule tidy_arm)
  then show ?thesis
    by (simp add: s2_def [symmetric] s3_def [symmetric] Let_def setTimeout_def)
qed

lemma tidy_new_info:
  assumes "tidy s" "map_of (streamTracking s) st = None"
  shows "tidy (s\<lparr> infos := (infos s)(nextInfo s := fresh_info st),
                   nextInfo := Suc (nextInfo s),
                   streamTracking := streamTracking s @ [(st, nextInfo s)] \<rparr>)"
proof -
  define r where "r = s\<lparr> infos := (infos s)(nextInfo s := fresh_info st),
                   nextInfo := Suc (nextInfo s),
                   streamTracking := streamTracking s @ [(st, nextInfo s)] \<rparr>"
  have f: "nextTimer r = nextTimer s" "nextInfo r = Suc (nextInfo s)"
    "streamTracking r = streamTracking s @ [(st, nextInfo s)]" "timers r = timers s"
    "infos r = (infos s)(nextInfo s := fresh_info st)"
    by (simp_all add: r_def)
  note n = assms(1) [unfolded tidy_iff]
  have below: "a < nextInfo s" if "(sid, a) \<in> set (streamTracking s)" for sid a
    using that n by auto
  have same: "infos r a = infos s a" if "(sid, a) \<in> set (streamTracking s)" for sid a
    using below [OF that] by (simp add: f)
  have key: "st \<notin> fst ` set (streamTracking s)"
    using assms(2) by (simp add: map_of_eq_None_iff)
  have 4: "distinct (map fst (streamTracking r))"
    using n key by (simp add: f)
  have 5: "\<forall>(sid, a) \<in> set (streamTracking r).
        a < nextInfo r \<and> stream (infos r a) = sid \<and>
        (\<forall>h. timeoutId (infos r a) = Some h \<longrightarrow> h < nextTimer r)"
  proof (clarify)
    fix sid a assume e: "(sid, a) \<in> set (streamTracking r)"
    show "a < nextInfo r \<and> stream (infos r a) = sid \<and>
        (\<forall>h. timeoutId (infos r a) = Some h \<longrightarrow> h < nextTimer r)"
    proof (cases "(sid, a) \<in> set (streamTracking s)")
      case True
      then show ?thesis using n same [OF True] by (fastforce simp: f(1,2))
    next
      case False
      then have "sid = st" "a = nextInfo s" using e by (auto simp: f)
      then show ?thesis by (simp add: f fresh_info_def)
    qed
  qed
  have 6: "\<forall>tm \<in> set (timers r). \<forall>a. callback tm = TrackDebounce a \<longrightarrow>
        (stream (infos r a), a) \<in> set (streamTracking r) \<and>
        timeoutId (infos r a) = Some (tid tm)"
  proof (intro ballI allI impI)
    fix tm a assume tm: "tm \<in> set (timers r)" and c: "callback tm = TrackDebounce a"
    have o: "(stream (infos s a), a) \<in> set (streamTracking s)"
      "timeoutId (infos s a) = Some (tid tm)"
      using n tm c by (auto simp: f)
    show "(stream (infos r a), a) \<in> set (streamTracking r) \<and>
        timeoutId (infos r a) = Some (tid tm)"
      using o same [OF o(1)] by (simp add: f(3))
  qed
  have 7: "\<forall>tm \<in> set (timers r). \<forall>(sid, a) \<in> set (streamTracking r).
        timeoutId (infos r a) = Some (tid tm) \<longrightarrow> callback tm = TrackDebounce a"
  proof (intro ballI, clarify)
    fix tm sid a assume tm: "tm \<in> set (timers r)"
      and e: "(sid, a) \<in> set (streamTracking r)"
      and h: "timeoutId (infos r a) = Some (tid tm)"
    show "callback tm = TrackDebounce a"
    proof (cases "(sid, a) \<in> set (streamTracking s)")
      case True
      then show ?thesis using n tm h same [OF True] by (fastforce simp: f(4))
    next
      case False
      then have "a = nextInfo s" using e by (auto simp: f)
      then show ?thesis using h by (simp add: f fresh_info_def)
    qed
  qed
  have "tidy r"
    unfolding tidy_iff using n 4 5 6 7 by (simp add: f(1,4))
  then show ?thesis by (simp add: r_def)
qed

lemma tidy_handleIncomingTrack [simp]:
  assumes "tidy s"
  shows "tidy (handleIncomingTrack ev s)"
proof (cases "streams ev")
  case Nil
  then show ?thesis using assms by (simp add: handleIncomingTrack_def)
next
  case (Cons st rest)
  show ?thesis
  proof (cases "map_of (streamTracking s) st")
    case None
    let ?s1 = "s\<lparr> infos := (infos s)(nextInfo s := fresh_info st),
                   nextInfo := Suc (nextInfo s),
                   streamTracking := streamTracking s @ [(st, nextInfo s)] \<rparr>"
    have "tidy ?s1" using assms None by (rule tidy_new_info)
    moreover have "(st, nextInfo s) \<in> set (streamTracking ?s1)" by simp
    ultimately show ?thesis
      using tidy_rearm [of ?s1 st "nextInfo s" "kind ev"] Cons None
      by (simp add: handleIncomingTrack_def get_or_create_def)
  next
    case (Some a)
    then have "(st, a) \<in> set (streamTracking s)" by (rule map_of_SomeD)
    then show ?thesis
      using tidy_rearm [of s st a "kind ev"] assms Cons Some
      by (simp add: handleIncomingTrack_def get_or_create_def)
  qed
qed

lemma tidy_create [simp]: "tidy (final (createPeerConnection e c s)) = tidy s"
  by (simp add: createPeerConnection_def)

lemma tidy_stun [simp]: "tidy (final (initializeWithStun e s)) = tidy s"
  by (simp add: initializeWithStun_def)

lemma tidy_turn_response [simp]: "tidy (final (initializeWithTurn_response e s)) = tidy s"
proof (cases "fetchTurn e")
  case (Credentials cr)
  have "tidy (final (createPeerConnection e (turn_config cr) s)) = tidy s"
    by simp
  then show ?thesis
    using Credentials
    by (cases "createPeerConnection e (turn_config cr) s")
       (auto simp: initializeWithTurn_response_def turn_failed_def)
qed (simp_all add: initializeWithTurn_response_def turn_failed_def)

lemma tidy_turn [simp]: "tidy (final (initializeWithTurn e s)) = tidy s"
  by (simp add: initializeWithTurn_def)

lemma tidy_schedule: "tidy s \<Longrightarrow> tidy (schedule_reconnect s)"
  by (simp add: schedule_reconnect_def Let_def is_debounce_def)

lemma tidy_failure_begin:
  "tidy s \<Longrightarrow> tidy (state_of (handleConnectionFailure_begin s))"
  by (auto simp: handleConnectionFailure_begin_def Let_def tidy_schedule)

lemma tidy_failure_resume:
  assumes "tidy s"
  shows "tidy (handleConnectionFailure_resume e k s)"
proof -
  have "tidy (final (initializeWithTurn_response e s))" using assms by simp
  then show ?thesis
    by (cases "initializeWithTurn_response e s")
       (auto simp: handleConnectionFailure_resume_def Let_def tidy_schedule)
qed

lemma tidy_failure: "tidy s \<Longrightarrow> tidy (handleConnectionFailure e s)"
  using tidy_failure_begin [of s] tidy_failure_resume [of _ e]
  by (auto simp: handleConnectionFailure_def split: paused.splits)

lemma tidy_finish: "tidy (final r) \<Longrightarrow> tidy (reconnect_finish k r)"
  by (cases r) (auto simp: reconnect_finish_def Let_def is_debounce_def)

lemma tidy_attempt_begin:
  "tidy s \<Longrightarrow> tidy (state_of (reconnect_attempt_begin e s))"
  by (auto simp: reconnect_attempt_begin_def Let_def intro!: tidy_finish)

lemma tidy_attempt_resume: "tidy s \<Longrightarrow> tidy (reconnect_attempt_resume e s)"
  by (simp add: reconnect_attempt_resume_def tidy_finish)

lemma tidy_attempt: "tidy s \<Longrightarrow> tidy (reconnect_attempt e s)"
  using tidy_attempt_begin [of s e] tidy_attempt_resume [of _ e]
  by (auto simp: reconnect_attempt_def split: paused.splits)

lemma tidy_addIceCandidate [simp]: "tidy (addIceCandidate e c s) = tidy s"
  by (simp add: addIceCandidate_def Let_def)

lemma tidy_drain:
  assumes "drain e s = Some s'" "tidy s"
  shows "tidy s'"
  using assms(2)
proof (induction rule: drain.raw_induct [OF _ assms(1)])
  case (1 drain' e s s')
  show ?case
  proof (cases "pendingCandidates s")
    case Nil
    then show ?thesis using 1 by simp
  next
    case (Cons c cs)
    then show ?thesis
      using 1(1) [of e "addIceCandidate e c (s\<lparr> pendingCandidates := cs \<rparr>)" s'] 1(2,3)
        drain_step [OF Cons, of e]
      by simp
  qed
qed

lemma tidy_processPending:
  "processPendingCandidates e s = Some s' \<Longrightarrow> tidy s \<Longrightarrow> tidy s'"
  by (auto simp: processPendingCandidates_def tidy_drain split: if_splits)

lemma tidy_srd_failed: "tidy s \<Longrightarrow> tidy (setRemoteDescription_failed e err s)"
  by (simp add: setRemoteDescription_failed_def tidy_failure)

lemma tidy_srd_begin:
  "tidy s \<Longrightarrow> tidy (state_of (setRemoteDescription_begin e d s))"
  by (auto simp: setRemoteDescription_begin_def Let_def tidy_srd_failed split: option.splits)

lemma tidy_srd_resume:
  "setRemoteDescription_resume e i s = Some s' \<Longrightarrow> tidy s \<Longrightarrow> tidy s'"
  by (auto simp: setRemoteDescription_resume_def tidy_srd_failed
      split: option.splits dest!: tidy_processPending)

lemma tidy_srd:
  "setRemoteDescription e d s = Some s' \<Longrightarrow> tidy s \<Longrightarrow> tidy s'"
  using tidy_srd_begin [of s e d]
  by (auto simp: setRemoteDescription_def split: paused.splits dest: tidy_srd_resume)

lemma tidy_createOffer: "tidy s \<Longrightarrow> tidy (final (createOffer e s))"
  by (auto simp: createOffer_def Let_def tidy_failure split: option.splits)

lemma tidy_createAnswer: "tidy s \<Longrightarrow> tidy (final (createAnswer e d s))"
  by (auto simp: createAnswer_def Let_def tidy_failure split: option.splits)

lemma tidy_initializeConnection [simp]:
  "tidy (final (initializeConnection e s)) = tidy s"
proof -
  have "tidy (final (initializeWithStun e s)) = tidy s" by simp
  then show ?thesis
    by (cases "initializeWithStun e s") (auto simp: initializeConnection_def)
qed

lemma tidy_initializePeer: "tidy s \<Longrightarrow> tidy (final (initializePeer e room s))"
  by (simp add: initializePeer_def)

lemma tidy_fold:
  "(\<And>x s. tidy (f x s) = tidy s) \<Longrightarrow> tidy (fold f xs s) = tidy s"
  by (induction xs arbitrary: s) auto

lemma tidy_addTracks [simp]: "tidy (addTracks e st s) = tidy s"
proof (cases "peer s")
  case None
  then show ?thesis by (simp add: addTracks_def)
next
  case (Some p)
  show ?thesis
  proof (cases st)
    case None
    then show ?thesis using Some by (simp add: addTracks_def)
  next
    case tr: (Some tracks)
    have 1: "tidy (fold (\<lambda>(k, sender) s'. perform (RtcRemoveTrack (pid p) sender) s')
                       (senders s) s) = tidy s"
      by (rule tidy_fold) (simp split: prod.splits)
    show ?thesis
      using Some tr 1
      by (simp add: addTracks_def Let_def)
         (subst tidy_fold; simp split: prod.splits)
  qed
qed

lemma tidy_small [simp]:
  "tidy (setRemotePeer i s) = tidy s"
  "tidy (setSocket s) = tidy s"
  "tidy (socket_ice_candidate e c room s) = tidy s"
  "tidy (switchMediaSource e st s) = tidy s"
  "tidy (browser_signaling g s) = tidy s"
  "tidy (browser_candidate c s) = tidy s"
  by (simp_all add: setRemotePeer_def setSocket_def socket_ice_candidate_def
      switchMediaSource_def browser_signaling_def browser_track_def browser_candidate_def
      on_icecandidate_def split: option.splits)

lemma tidy_on_ice: "tidy s \<Longrightarrow> tidy (on_iceconnectionstatechange e s)"
  by (auto simp: on_iceconnectionstatechange_def Let_def tidy_failure is_debounce_def
      split_beta split: option.splits ice_state.splits)

lemma tidy_on_connection: "tidy s \<Longrightarrow> tidy (on_connectionstatechange e s)"
  by (auto simp: on_connectionstatechange_def tidy_failure
      split: option.splits conn_state.splits)

lemma tidy_browser_ice: "tidy s \<Longrightarrow> tidy (browser_ice e i s)"
  by (auto simp: browser_ice_def Let_def tidy_on_ice split: option.splits)

lemma tidy_browser_connection: "tidy s \<Longrightarrow> tidy (browser_connection e c s)"
  by (auto simp: browser_connection_def Let_def tidy_on_connection split: option.splits)

lemma tidy_browser_track: "tidy s \<Longrightarrow> tidy (browser_track ev s)"
  by (simp add: browser_track_def split: option.splits)

lemma tidy_fire: "tidy s \<Longrightarrow> tidy (fire e tm s)"
  by (auto simp: fire_def run_callback_def tidy_failure tidy_attempt tidy_remove
      split: callback.splits)

lemma reachable_tidy: "reachable s \<Longrightarrow> tidy s"
proof (induction rule: reachable.induct)
  case r_constructor
  then show ?case by (simp add: tidy_iff constructor_def)
qed (simp_all add: tidy_processPending tidy_createOffer tidy_createAnswer tidy_srd
    tidy_srd_begin tidy_srd_resume tidy_initializePeer tidy_failure
    tidy_failure_begin tidy_failure_resume tidy_attempt_begin tidy_attempt_resume
    tidy_browser_ice tidy_browser_connection tidy_browser_track tidy_fire)

lemma ice_timers_kept:
  assumes "tidy s"
  shows "filter ice_guarded (timers (cleanup s)) = filter ice_guarded (timers s)"
proof -
  have "tid tm \<notin> set (debounce_handles s)" if m: "tm \<in> set (timers s)" and g: "ice_guarded tm"
    for tm
  proof
    assume "tid tm \<in> set (debounce_handles s)"
    then obtain sid a where e: "(sid, a) \<in> set (streamTracking s)"
      "truthy_id (timeoutId (infos s a))" "tid tm = the (timeoutId (infos s a))"
      unfolding in_handles by blast
    then have "timeoutId (infos s a) = Some (tid tm)"
      by (auto simp: truthy_id_def split: option.splits)
    then have "callback tm = TrackDebounce a"
      using assms m e(1) by (fastforce simp: tidy_iff)
    then show False using g by (simp add: ice_guarded_def)
  qed
  then show ?thesis
    by (auto simp: cleanup_fields intro: filter_cong)
qed

lemma guarded_fire:
  assumes "ice_guarded tm" "peer s = None"
  shows "fire e tm s = s\<lparr> timers := filter (\<lambda>x. tid x \<noteq> tid tm) (timers s),
                           now := max (now s) (due tm) \<rparr>"
  using assms by (auto simp: ice_guarded_def fire_def run_callback_def)

text \<open>
  Claim C7, as the code has it. \<^verbatim>\<open>cleanup\<close> cancels every pending track-aggregation
  debounce timer: after it, in every reachable state, and in any state in which each pending
  debounce timer is the one its tracking-info object records, no debounce timer is pending.
  It does not cancel the ICE-checking timeout or the disconnected grace timer: in every
  reachable state the pending timers of these two kinds are the same after \<^verbatim>\<open>cleanup\<close> as
  before. Their callbacks are guarded by the ICE state of the current connection, and
  \<^verbatim>\<open>cleanup\<close> leaves no connection: when such a timer fires in the state \<^verbatim>\<open>cleanup\<close> returns,
  the timer is consumed, the clock moves, and nothing else happens. \<^verbatim>\<open>cleanup\<close> nulls the five
  handler slots of the connection object and then closes it (the object is closed with its
  handlers detached), drops it, empties the tracking map, the pending-candidate queue and
  the sender map, and resets \<open>isReconnecting\<close>, \<open>isSettingRemoteDescription\<close> and
  \<open>reconnectAttempts\<close>. A second \<^verbatim>\<open>cleanup\<close> right after the first changes nothing.
\<close>

theorem cleanup_teardown:
  "(debounce_tracked s \<or> reachable s \<longrightarrow>
      list_all (\<lambda>tm. \<not> is_debounce tm) (timers (cleanup s))) \<and>
   (reachable s \<longrightarrow>
      filter ice_guarded (timers (cleanup s)) = filter ice_guarded (timers s)) \<and>
   (ice_guarded tm \<longrightarrow>
      fire e tm (cleanup s) =
        (cleanup s)\<lparr> timers := filter (\<lambda>x. tid x \<noteq> tid tm) (timers (cleanup s)),
                     now := max (now (cleanup s)) (due tm) \<rparr>) \<and>
   closes (trace (cleanup s)) =
     closes (trace s) @ (case peer s of None \<Rightarrow> [] | Some p \<Rightarrow> [detach p]) \<and>
   (\<forall>p. \<not> ontrack (detach p) \<and> \<not> onicecandidate (detach p) \<and>
        \<not> oniceconnectionstatechange (detach p) \<and> \<not> onconnectionstatechange (detach p) \<and>
        \<not> onsignalingstatechange (detach p)) \<and>
   peer (cleanup s) = None \<and> streamTracking (cleanup s) = [] \<and>
   pendingCandidates (cleanup s) = [] \<and> senders (cleanup s) = [] \<and>
   \<not> isReconnecting (cleanup s) \<and> \<not> isSettingRemoteDescription (cleanup s) \<and>
   reconnectAttempts (cleanup s) = 0 \<and>
   cleanup (cleanup s) = cleanup s"
proof -
  have t: "debounce_tracked s" if "reachable s"
    using that reachable_tidy [of s] by (simp add: tidy_tracked)
  have k: "filter ice_guarded (timers (cleanup s)) = filter ice_guarded (timers s)"
    if "reachable s"
    using that reachable_tidy [of s] by (simp add: ice_timers_kept)
  have g: "fire e tm (cleanup s) =
        (cleanup s)\<lparr> timers := filter (\<lambda>x. tid x \<noteq> tid tm) (timers (cleanup s)),
                     now := max (now (cleanup s)) (due tm) \<rparr>" if "ice_guarded tm"
    using that by (rule guarded_fire) (simp add: cleanup_fields)
  have c: "closes (trace (cleanup s)) =
     closes (trace s) @ (case peer s of None \<Rightarrow> [] | Some p \<Rightarrow> [detach p])"
    by (simp add: cleanup_fields split: option.splits)
  show ?thesis
    using t k g c tracked_gone [of s] by (auto simp: cleanup_fields cleanup_twice detach_def)
qed

theorem cleanup_teardown_witness:
  "reachable busy \<and> ice_guarded \<lparr> tid = 3, due = 10000, callback = IceCheckingTimeout \<rparr> \<and>
   map callback (timers busy) = [TrackDebounce 0, DisconnectedGrace, IceCheckingTimeout] \<and>
   list_all (\<lambda>tm. \<not> is_debounce tm) (timers (cleanup busy)) \<and>
   filter ice_guarded (timers (cleanup busy)) =
     [\<lparr> tid = 2, due = 3000, callback = DisconnectedGrace \<rparr>,
      \<lparr> tid = 3, due = 10000, callback = IceCheckingTimeout \<rparr>] \<and>
   fire accepting \<lparr> tid = 3, due = 10000, callback = IceCheckingTimeout \<rparr> (cleanup busy) =
     (cleanup busy)\<lparr> timers := [\<lparr> tid = 2, due = 3000, callback = DisconnectedGrace \<rparr>],
                      now := 10000 \<rparr> \<and>
   peer (cleanup busy) = None \<and> cleanup (cleanup busy) = cleanup busy"
proof -
  have r: "reachable busy"
    unfolding busy_def
    by (rule r_browser_ice, rule r_browser_ice, rule r_browser_track, rule in_call_reachable)
  have g: "ice_guarded \<lparr> tid = 3, due = 10000, callback = IceCheckingTimeout \<rparr>"
    by (simp add: ice_guarded_def)
  have n: "now busy = 0"
    by (simp add: busy_def in_call_eq an_audio_track_def accepting_def constructor_def run_defs)
  have f: "timers (cleanup busy) = [\<lparr> tid = 2, due = 3000, callback = DisconnectedGrace \<rparr>,
      \<lparr> tid = 3, due = 10000, callback = IceCheckingTimeout \<rparr>]" "now (cleanup busy) = 0"
    by (simp_all add: cleanup_eq busy_timers busy_handles n)
  show ?thesis
    using cleanup_teardown [of busy "\<lparr> tid = 3, due = 10000, callback = IceCheckingTimeout \<rparr>"
        accepting] r g
    by (simp add: busy_timers f ice_guarded_def)
qed

text \<open>
  The claim as stated fails: with a debounce timer, the disconnected grace timer and the
  ICE-checking timeout pending, \<^verbatim>\<open>cleanup\<close> cancels the first and leaves the other two.
\<close>

theorem cleanup_leaves_ice_timers:
  "map callback (timers busy) = [TrackDebounce 0, DisconnectedGrace, IceCheckingTimeout] \<and>
   map callback (timers (cleanup busy)) = [DisconnectedGrace, IceCheckingTimeout] \<and>
   map tid (timers (cleanup busy)) = [2, 3]"
  by (simp add: busy_timers busy_handles cleanup_fields)

subsection \<open>Recovery as the code runs it\<close>

lemma network_lost_eq:
  "retrying network_lost" "fetches (trace network_lost) = 1"
  "\<not> exhausted (trace network_lost)" "delays (trace network_lost) = [1000]"
  by (simp_all add: retrying_def network_lost_def in_call_eq refusing_def constructor_def
      run_defs recovery_defs detach_def)

lemma retry_step:
  assumes "retrying s"
  shows "retrying (fire_next refusing s)"
    and "fetches (trace (fire_next refusing s)) = Suc (fetches (trace s))"
    and "exhausted (trace (fire_next refusing s)) = exhausted (trace s)"
    and "delays (trace (fire_next refusing s)) = delays (trace s) @ [1000]"
proof -
  from assms obtain tm where tm: "timers s = [tm]"
    by (auto simp: retrying_def)
  have h: "debounce_handles s = []"
    using assms by (simp add: retrying_def debounce_handles_def)
  have run: "fire_next refusing s =
               run_callback refusing (callback tm) (s\<lparr> timers := [], now := max (now s) (due tm) \<rparr>)"
    using tm by (simp add: fire_next_def fire_def)
  show "retrying (fire_next refusing s)"
    and "fetches (trace (fire_next refusing s)) = Suc (fetches (trace s))"
    and "exhausted (trace (fire_next refusing s)) = exhausted (trace s)"
    and "delays (trace (fire_next refusing s)) = delays (trace s) @ [1000]"
    using assms tm h
    by (auto simp: run retrying_def run_callback_def recovery_defs cleanup_eq refusing_def
        debounce_handles_def base_defs)
qed

lemma after_fallback_rebuilt:
  "rebuilt after_fallback" "\<not> exhausted (trace after_fallback)"
  "delays (trace after_fallback) = []" "fetches (trace after_fallback) = 1"
  by (simp_all add: rebuilt_def after_fallback_def in_call_eq accepting_def constructor_def
      run_defs recovery_defs detach_def)

lemma round_step:
  assumes "rebuilt s"
  shows "rebuilt (failing_round s)"
    and "fetches (trace (failing_round s)) = Suc (fetches (trace s))"
    and "exhausted (trace (failing_round s)) = exhausted (trace s)"
    and "delays (trace (failing_round s)) = delays (trace s) @ [1000]"
proof -
  from assms obtain p where p: "peer s = Some p" "onconnectionstatechange p"
    by (auto simp: rebuilt_def split: option.splits)
  have h: "debounce_handles s = []"
    using assms by (simp add: rebuilt_def debounce_handles_def)
  show "rebuilt (failing_round s)"
    and "fetches (trace (failing_round s)) = Suc (fetches (trace s))"
    and "exhausted (trace (failing_round s)) = exhausted (trace s)"
    and "delays (trace (failing_round s)) = delays (trace s) @ [1000]"
    using assms p h
    by (auto simp: failing_round_def rebuilt_def recovery_defs cleanup_eq accepting_def
        debounce_handles_def base_defs createPeerConnection_def setupPeerEvents_def new_rtc_def)
qed


lemma keeps_failing_run:
  "rebuilt (keeps_failing n) \<and> \<not> exhausted (trace (keeps_failing n)) \<and>
   fetches (trace (keeps_failing n)) = n + 1 \<and>
   delays (trace (keeps_failing n)) = replicate n 1000"
proof (induction n)
  case 0
  then show ?case by (simp add: keeps_failing_def after_fallback_rebuilt)
next
  case (Suc n)
  have "keeps_failing (Suc n) = failing_round (keeps_failing n)"
    by (simp add: keeps_failing_def)
  then show ?case
    using Suc round_step [of "keeps_failing n"]
    by (simp add: replicate_append_same)
qed

lemma retry_loop_run:
  "retrying (retry_loop n) \<and> \<not> exhausted (trace (retry_loop n)) \<and>
   fetches (trace (retry_loop n)) = n + 1 \<and>
   delays (trace (retry_loop n)) = replicate (n + 1) 1000"
proof (induction n)
  case 0
  then show ?case by (simp add: retry_loop_def network_lost_eq)
next
  case (Suc n)
  have "retry_loop (Suc n) = fire_next refusing (retry_loop n)"
    by (simp add: retry_loop_def)
  then show ?case
    using Suc retry_step [of "retry_loop n"]
    by (simp add: replicate_append_same)
qed

text \<open>
  Claim C1 under both ways of failing for ever. When every attempt throws: after the first
  failure and any number \<open>n\<close> of timer firings, \<open>n + 1\<close> fallback attempts have been made,
  each timer armed had a delay of 1000 ms, one timer is pending again, the counter is at most
  1, and no \<open>reconnect\<close> error has been emitted. When every attempt builds a connection that
  fails again: after the immediate fallback and any number \<open>n\<close> of further rounds, \<open>n + 1\<close>
  attempts have been made, each backoff delay was 1000 ms, the counter is back at 0 and no
  \<open>reconnect\<close> error has been emitted. The retries do not end after five attempts, and the
  delays do not grow.
\<close>

theorem retries_never_exhaust:
  "\<not> exhausted (trace (retry_loop n)) \<and>
   fetches (trace (retry_loop n)) = n + 1 \<and>
   delays (trace (retry_loop n)) = replicate (n + 1) 1000 \<and>
   length (timers (retry_loop n)) = 1 \<and>
   reconnectAttempts (retry_loop n) \<le> 1 \<and>
   \<not> exhausted (trace (keeps_failing n)) \<and>
   fetches (trace (keeps_failing n)) = n + 1 \<and>
   delays (trace (keeps_failing n)) = replicate n 1000 \<and>
   reconnectAttempts (keeps_failing n) = 0"
proof -
  have "length (timers s) = 1 \<and> reconnectAttempts s \<le> 1" if "retrying s" for s
  proof -
    have "length (map callback (timers s)) = 1"
      using that by (auto simp: retrying_def)
    then show ?thesis using that by (auto simp: retrying_def)
  qed
  moreover have "reconnectAttempts s = 0" if "rebuilt s" for s
    using that by (simp add: rebuilt_def)
  ultimately show ?thesis
    using retry_loop_run [of n] keeps_failing_run [of n] by blast
qed

lemma after_fallback_eq:
  "roomId after_fallback = Some ''room-1''"
  "remotePeerId after_fallback = Some ''bob''"
  "map_option pid (peer after_fallback) = Some 1"
  "lastUsedConfig after_fallback = Some Turn"
  "reconnect_calls (trace after_fallback) = 1"
  by (simp_all add: after_fallback_def in_call_eq accepting_def constructor_def run_defs recovery_defs detach_def)

lemma reconnect_attempt_ids:
  "roomId (reconnect_attempt e s) = None"
  "peer s \<noteq> None \<Longrightarrow> remotePeerId (reconnect_attempt e s) = None"
  "reconnect_calls (trace (reconnect_attempt e s)) = reconnect_calls (trace s)"
  by (auto simp: reconnect_attempt_def reconnect_attempt_begin_def reconnect_attempt_resume_def
      reconnect_finish_def cleanup_eq base_defs build_defs
      split: turn_response.splits option.splits)

lemma failed_again_eq:
  "roomId failed_again = Some ''room-1''"
  "remotePeerId failed_again = Some ''bob''"
  "timers failed_again = [\<lparr> tid = 1, due = 1000, callback = ReconnectAttempt \<rparr>]"
  "map_option pid (peer failed_again) = Some 1"
  "reconnect_calls (trace failed_again) = 1"
  "now failed_again = 0"
  by (simp_all add: failed_again_def after_fallback_def in_call_eq accepting_def constructor_def run_defs recovery_defs detach_def)

lemma after_backoff_run:
  "after_backoff = reconnect_attempt accepting (failed_again\<lparr> timers := [], now := 1000 \<rparr>)"
  by (simp add: after_backoff_def fire_next_def fire_def run_callback_def failed_again_eq(3,6))

lemma failed_again_peer: "peer failed_again \<noteq> None"
  using failed_again_eq(4) by auto

lemma after_backoff_peer: "map_option pid (peer after_backoff) = Some 2"
  by (simp add: after_backoff_run failed_again_def after_fallback_def in_call_eq accepting_def
      constructor_def run_defs recovery_defs detach_def)

text \<open>
  Claim C8 on the backoff path. After the immediate fallback the session still has its room
  and remote peer, and the consumer was told to call again. After the next failure and the
  backoff attempt it schedules, the old connection is closed and a new one exists, but room
  and remote peer are null and the consumer was not told to call again.
\<close>

theorem backoff_attempt_drops_identifiers:
  "roomId failed_again = Some ''room-1'' \<and> remotePeerId failed_again = Some ''bob'' \<and>
   map_option pid (peer failed_again) = Some 1 \<and>
   roomId after_backoff = None \<and> remotePeerId after_backoff = None \<and>
   map_option pid (peer after_backoff) = Some 2 \<and>
   reconnect_calls (trace after_backoff) = reconnect_calls (trace failed_again)"
proof -
  have "peer (failed_again\<lparr> timers := [], now := 1000 \<rparr>) \<noteq> None"
    using failed_again_peer by simp
  then have "roomId after_backoff = None" "remotePeerId after_backoff = None"
    "reconnect_calls (trace after_backoff) = reconnect_calls (trace failed_again)"
    by (simp_all add: after_backoff_run reconnect_attempt_ids)
  then show ?thesis
    using failed_again_eq(1,2,4) after_backoff_peer by simp
qed

lemma first_wait_eq:
  "\<not> isReconnecting first_wait" "reconnectAttempts first_wait = 0"
  "lastUsedConfig first_wait = None" "remotePeerId first_wait = None" "roomId first_wait = None"
  "fetches (trace first_wait) = 1" "peer first_wait = None"
  by (simp_all add: first_wait_def initializeWithTurn_request_def perform_def cleanup_eq
      in_call_eq constructor_def debounce_handles_def)

lemma first_begin:
  "handleConnectionFailure_begin in_call = Paused (Some ''bob'', Some ''room-1'') first_wait"
  by (simp add: handleConnectionFailure_begin_def in_call_flags first_wait_def)

lemma second_begin:
  "handleConnectionFailure_begin first_wait = Paused (None, None) second_wait"
  by (simp add: handleConnectionFailure_begin_def first_wait_eq second_wait_def)

lemma second_wait_eq:
  "fetches (trace second_wait) = 2"
  by (simp add: second_wait_def initializeWithTurn_request_def perform_def cleanup_eq
      first_wait_eq)

lemma both_resumed_eq:
  "roomId both_resumed = None" "remotePeerId both_resumed = None"
  "map_option pid (peer both_resumed) = Some 2"
  by (simp_all add: both_resumed_def second_wait_def first_wait_def in_call_eq accepting_def
      constructor_def run_defs recovery_defs detach_def)

lemma flapped_eq:
  "map callback (timers failed_again) = [ReconnectAttempt]"
  "map callback (timers flapped) = [ReconnectAttempt, ReconnectAttempt]"
  by (simp_all add: flapped_def failed_again_def after_fallback_def in_call_eq accepting_def
      constructor_def run_defs recovery_defs detach_def)

text \<open>
  Claim C9 at a second failure signal during the first sequence. The first call starts the
  immediate fallback and waits for the credential endpoint with \<open>isReconnecting\<close> already
  false again, reset by \<^verbatim>\<open>cleanup\<close>. A second call made during the wait does not return at
  once: it starts a second fallback and a second fetch, with null identifiers saved. Once
  both have resumed, the second's connection has replaced the first's and room and remote
  peer are null. On the backoff path, a pending backoff timer does not stop a second one
  from being scheduled once the flag has been reset.
\<close>

theorem second_failure_not_excluded:
  "handleConnectionFailure_begin in_call = Paused (Some ''bob'', Some ''room-1'') first_wait \<and>
   \<not> isReconnecting first_wait \<and> fetches (trace first_wait) = 1 \<and>
   handleConnectionFailure_begin first_wait = Paused (None, None) second_wait \<and>
   fetches (trace second_wait) = 2 \<and>
   roomId both_resumed = None \<and> remotePeerId both_resumed = None \<and>
   map_option pid (peer both_resumed) = Some 2 \<and>
   map callback (timers failed_again) = [ReconnectAttempt] \<and>
   map callback (timers flapped) = [ReconnectAttempt, ReconnectAttempt]"
  by (simp add: first_begin second_begin first_wait_eq second_wait_eq both_resumed_eq
      flapped_eq)

subsection \<open>The track aggregator\<close>

lemma earliest_mem: "earliest ts = Some tm \<Longrightarrow> tm \<in> set ts"
  by (induction ts arbitrary: tm) (auto split: option.splits if_splits)

lemma advance_idle:
  assumes "\<forall>tm \<in> set (timers s). t < due tm"
  shows "advance e t s = Some (s\<lparr> now := max (now s) t \<rparr>)"
proof (cases "earliest (timers s)")
  case None
  then show ?thesis by (subst advance.simps) simp
next
  case (Some tm)
  then have "t < due tm" using assms earliest_mem by blast
  then show ?thesis using Some by (subst advance.simps) simp
qed

lemma advance_fire:
  "earliest (timers s) = Some tm \<Longrightarrow> due tm \<le> t \<Longrightarrow> advance e t s = advance e t (fire e tm s)"
  by (subst advance.simps) simp

lemma ready_times_append [simp]:
  "ready_times sid (xs @ ys) = ready_times sid xs @ ready_times sid ys"
  by (induction xs rule: ready_times.induct) auto

lemma earliest_none: "earliest ts = None \<Longrightarrow> ts = []"
  by (cases ts) (auto split: option.splits if_splits)

lemma earliest_min: "earliest ts = Some tm \<Longrightarrow> x \<in> set ts \<Longrightarrow> due tm \<le> due x"
  by (induction ts arbitrary: tm)
     (fastforce split: option.splits if_splits dest: earliest_none)+

lemma waiting_iff:
  "waiting sid d s \<longleftrightarrow>
     (\<exists>a. map_of (streamTracking s) sid = Some a \<and> \<not> emitted (infos s a) \<and> now s \<le> d \<and>
          (\<exists>tm \<in> set (timers s). callback tm = TrackDebounce a \<and> due tm = d))"
  by (auto simp: waiting_def list_ex_iff split: option.splits)

lemma ready_iff:
  "ready sid s \<longleftrightarrow> (\<exists>a. map_of (streamTracking s) sid = Some a \<and> emitted (infos s a))"
  by (auto simp: ready_def split: option.splits)

lemma quiet_iff: "quiet T s \<longleftrightarrow> (\<forall>tm \<in> set (timers s). is_debounce tm \<or> T < due tm)"
  by (simp add: quiet_def list_all_iff)

lemma is_debounce_iff: "is_debounce tm \<longleftrightarrow> (\<exists>a. callback tm = TrackDebounce a)"
  by (cases "callback tm") (simp_all add: is_debounce_def)

text \<open>What the bookkeeping gives for one entry of the tracking map and for one timer.\<close>

lemma entry_facts:
  assumes "tidy s" "map_of (streamTracking s) sid = Some a"
  shows "(sid, a) \<in> set (streamTracking s)" "stream (infos s a) = sid" "a < nextInfo s"
proof -
  show m: "(sid, a) \<in> set (streamTracking s)" using assms(2) by (rule map_of_SomeD)
  show "stream (infos s a) = sid" "a < nextInfo s"
    using assms(1) m by (auto simp: tidy_iff)
qed

lemma timer_entry:
  assumes "tidy s" "tm \<in> set (timers s)" "callback tm = TrackDebounce a"
  shows "map_of (streamTracking s) (stream (infos s a)) = Some a"
    "timeoutId (infos s a) = Some (tid tm)" "0 < tid tm"
proof -
  have "(stream (infos s a), a) \<in> set (streamTracking s)" "distinct (map fst (streamTracking s))"
    using assms by (auto simp: tidy_iff)
  then show "map_of (streamTracking s) (stream (infos s a)) = Some a"
    by (simp add: map_of_is_SomeI)
  show "timeoutId (infos s a) = Some (tid tm)" "0 < tid tm"
    using assms by (auto simp: tidy_iff)
qed

lemma timer_unique:
  assumes "tidy s" "tm \<in> set (timers s)" "tm' \<in> set (timers s)" "tid tm = tid tm'"
  shows "tm = tm'"
proof -
  have "distinct (map tid (timers s))" using assms(1) by (simp add: tidy_iff)
  then have "inj_on tid (set (timers s))" by (simp add: distinct_map)
  then show ?thesis using assms(2,3,4) by (auto dest: inj_onD)
qed

lemma debounce_timer_unique:
  assumes "tidy s" "tm \<in> set (timers s)" "tm' \<in> set (timers s)"
    "callback tm = TrackDebounce a" "callback tm' = TrackDebounce a"
  shows "tm = tm'"
proof -
  have "tid tm = tid tm'"
    using timer_entry(2) [OF assms(1,2,4)] timer_entry(2) [OF assms(1,3,5)] by simp
  then show ?thesis using assms(1,2,3) by (rule timer_unique [rotated 3])
qed


text \<open>A debounce timer fires.\<close>

lemma fire_debounce:
  assumes "callback tm = TrackDebounce a'"
  shows "timers (fire e tm s) = filter (\<lambda>x. tid x \<noteq> tid tm) (timers s)"
    and "streamTracking (fire e tm s) = streamTracking s"
    and "now (fire e tm s) = max (now s) (due tm)"
    and "x \<noteq> a' \<Longrightarrow> infos (fire e tm s) x = infos s x"
    and "emitted (infos (fire e tm s) a')"
    and "trace (fire e tm s) =
           trace s @ (if emitted (infos s a') then []
                      else [(max (now s) (due tm), Emit (RemoteStream (stream (infos s a'))))])"
  using assms
  by (simp_all add: fire_def run_callback_def debounce_fired_def update_info_def emit_def
      perform_def)

lemma fire_other_stream:
  assumes "tidy s" "tm \<in> set (timers s)" "callback tm = TrackDebounce a'"
    "map_of (streamTracking s) sid \<noteq> Some a'"
  shows "ready_times sid (trace (fire e tm s)) = ready_times sid (trace s)"
proof -
  have "map_of (streamTracking s) (stream (infos s a')) = Some a'"
    using assms(1,2,3) by (rule timer_entry)
  then have "stream (infos s a') \<noteq> sid" using assms(4) by auto
  then show ?thesis by (simp add: fire_debounce(6) [OF assms(3)])
qed

lemma fire_phase:
  assumes "tidy s" "earliest (timers s) = Some tm" "callback tm = TrackDebounce a'"
  shows "absent sid s \<Longrightarrow>
           absent sid (fire e tm s) \<and>
           ready_times sid (trace (fire e tm s)) = ready_times sid (trace s)"
    and "ready sid s \<Longrightarrow>
           ready sid (fire e tm s) \<and>
           ready_times sid (trace (fire e tm s)) = ready_times sid (trace s)"
    and "waiting sid d s \<Longrightarrow>
           due tm = d \<and> ready sid (fire e tm s) \<and>
           ready_times sid (trace (fire e tm s)) = ready_times sid (trace s) @ [d]
           \<or> waiting sid d (fire e tm s) \<and>
             ready_times sid (trace (fire e tm s)) = ready_times sid (trace s)"
proof -
  note f = fire_debounce [OF assms(3), where e = e and s = s]
  have m: "tm \<in> set (timers s)" using assms(2) by (rule earliest_mem)
  note other = fire_other_stream [OF assms(1) m assms(3), where sid = sid and e = e]
  {
    assume "absent sid s"
    then have n: "map_of (streamTracking s) sid = None" by (simp add: absent_def)
    then have "ready_times sid (trace (fire e tm s)) = ready_times sid (trace s)"
      using other by simp
    then show "absent sid (fire e tm s) \<and>
           ready_times sid (trace (fire e tm s)) = ready_times sid (trace s)"
      using n by (simp add: absent_def f(2))
  next
    assume "ready sid s"
    then obtain a where a: "map_of (streamTracking s) sid = Some a" "emitted (infos s a)"
      by (auto simp: ready_iff)
    show "ready sid (fire e tm s) \<and>
           ready_times sid (trace (fire e tm s)) = ready_times sid (trace s)"
    proof (cases "a = a'")
      case True
      then show ?thesis using a f(5) by (simp add: ready_iff f(2) f(6))
    next
      case False
      then have "ready_times sid (trace (fire e tm s)) = ready_times sid (trace s)"
        using other a(1) by simp
      then show ?thesis using False a f(4) [where x = a] by (simp add: ready_iff f(2))
    qed
  next
    assume "waiting sid d s"
    then obtain a tm' where a: "map_of (streamTracking s) sid = Some a"
      "\<not> emitted (infos s a)" "now s \<le> d" "tm' \<in> set (timers s)"
      "callback tm' = TrackDebounce a" "due tm' = d"
      by (auto simp: waiting_iff)
    show "due tm = d \<and> ready sid (fire e tm s) \<and>
           ready_times sid (trace (fire e tm s)) = ready_times sid (trace s) @ [d]
           \<or> waiting sid d (fire e tm s) \<and>
             ready_times sid (trace (fire e tm s)) = ready_times sid (trace s)"
    proof (cases "a = a'")
      case True
      then have "tm = tm'"
        using debounce_timer_unique [OF assms(1) m a(4) assms(3)] a(5) by simp
      then have d: "due tm = d" using a(6) by simp
      have st: "stream (infos s a') = sid"
        using entry_facts(2) [OF assms(1) a(1)] True by simp
      have "ready_times sid (trace (fire e tm s)) = ready_times sid (trace s) @ [d]"
        using a(2,3) True d st by (simp add: f(6) max_def)
      moreover have "ready sid (fire e tm s)"
        using a(1) True f(5) by (simp add: ready_iff f(2))
      ultimately show ?thesis using d by simp
    next
      case False
      have r: "ready_times sid (trace (fire e tm s)) = ready_times sid (trace s)"
        using other a(1) False by simp
      have "tid tm' \<noteq> tid tm"
      proof
        assume "tid tm' = tid tm"
        then have "tm' = tm" using assms(1) a(4) m by (rule timer_unique [rotated 3])
        then show False using a(5) assms(3) False by simp
      qed
      then have k: "tm' \<in> set (timers (fire e tm s))" using a(4) by (simp add: f(1))
      have "due tm \<le> d" using earliest_min [OF assms(2) a(4)] a(6) by simp
      then have "now (fire e tm s) \<le> d" using a(3) by (simp add: f(3))
      then have "waiting sid d (fire e tm s)"
        unfolding waiting_iff using a(1,2,5,6) k False f(4) [where x = a] by (auto simp: f(2))
      then show ?thesis using r by simp
    qed
  }
qed


text \<open>Time passes while only debounce timers fall due.\<close>

lemma idle_phase:
  assumes "\<forall>tm \<in> set (timers s). t < due tm"
  shows "absent sid (s\<lparr> now := max (now s) t \<rparr>) = absent sid s"
    and "ready sid (s\<lparr> now := max (now s) t \<rparr>) = ready sid s"
    and "waiting sid d s \<Longrightarrow> t < d \<and> waiting sid d (s\<lparr> now := max (now s) t \<rparr>)"
proof -
  show "absent sid (s\<lparr> now := max (now s) t \<rparr>) = absent sid s"
    "ready sid (s\<lparr> now := max (now s) t \<rparr>) = ready sid s"
    by (simp_all add: absent_def ready_iff)
  assume "waiting sid d s"
  then obtain a tm where a: "map_of (streamTracking s) sid = Some a"
    "\<not> emitted (infos s a)" "now s \<le> d" "tm \<in> set (timers s)"
    "callback tm = TrackDebounce a" "due tm = d"
    by (auto simp: waiting_iff)
  have d: "t < d" using assms a(4,6) by auto
  moreover have "waiting sid d (s\<lparr> now := max (now s) t \<rparr>)"
    unfolding waiting_iff using a d by auto
  ultimately show "t < d \<and> waiting sid d (s\<lparr> now := max (now s) t \<rparr>)" by simp
qed

lemma advance_debounce:
  assumes "reachable s" "quiet T s" "t \<le> T"
  shows "\<exists>s'. advance e t s = Some s' \<and> reachable s' \<and> quiet T s' \<and>
              now s' = max (now s) t \<and> (\<forall>tm \<in> set (timers s'). t < due tm) \<and>
              (absent sid s \<longrightarrow>
                 absent sid s' \<and> ready_times sid (trace s') = ready_times sid (trace s)) \<and>
              (ready sid s \<longrightarrow>
                 ready sid s' \<and> ready_times sid (trace s') = ready_times sid (trace s)) \<and>
              (\<forall>d. waiting sid d s \<longrightarrow>
                 (if d \<le> t
                  then ready sid s' \<and>
                       ready_times sid (trace s') = ready_times sid (trace s) @ [d]
                  else waiting sid d s' \<and>
                       ready_times sid (trace s') = ready_times sid (trace s)))"
  using assms(1,2)
proof (induction "length (filter (\<lambda>tm. due tm \<le> t) (timers s))" arbitrary: s
    rule: less_induct)
  case less
  let ?i = "s\<lparr> now := max (now s) t \<rparr>"
  have idle: ?case if i: "\<forall>tm \<in> set (timers s). t < due tm"
  proof -
    have "advance e t s = Some ?i" using i by (rule advance_idle)
    moreover have "reachable ?i" using less.prems(1) by (rule r_elapse)
    moreover have "quiet T ?i" using less.prems(2) by (simp add: quiet_iff)
    moreover have "\<forall>d. waiting sid d s \<longrightarrow> \<not> d \<le> t \<and> waiting sid d ?i"
      using idle_phase(3) [OF i] by fastforce
    ultimately show ?thesis
      using i idle_phase(1,2) [OF i, of sid] by simp
  qed
  show ?case
  proof (cases "earliest (timers s)")
    case None
    then have "timers s = []" by (rule earliest_none)
    then show ?thesis using idle by simp
  next
    case (Some tm)
    show ?thesis
    proof (cases "due tm \<le> t")
      case False
      then have "\<forall>x \<in> set (timers s). t < due x"
        using earliest_min [OF Some] by fastforce
      then show ?thesis by (rule idle)
    next
      case True
      have m: "tm \<in> set (timers s)" using Some by (rule earliest_mem)
      have "is_debounce tm" using less.prems(2) m True assms(3) by (auto simp: quiet_iff)
      then obtain a' where cb: "callback tm = TrackDebounce a'"
        by (auto simp: is_debounce_iff)
      let ?f = "fire e tm s"
      note f = fire_debounce [OF cb, where e = e and s = s]
      have t: "tidy s" using less.prems(1) by (rule reachable_tidy)
      have r1: "reachable ?f" using less.prems(1) m by (rule r_fire)
      have q1: "quiet T ?f" using less.prems(2) by (simp add: quiet_iff f(1))
      have "filter (\<lambda>tm. due tm \<le> t) (timers ?f) =
            filter (\<lambda>x. tid x \<noteq> tid tm) (filter (\<lambda>tm. due tm \<le> t) (timers s))"
        by (simp add: f(1) conj_commute)
      moreover have "tm \<in> set (filter (\<lambda>tm. due tm \<le> t) (timers s))"
        using m True by simp
      ultimately have "length (filter (\<lambda>tm. due tm \<le> t) (timers ?f))
                     < length (filter (\<lambda>tm. due tm \<le> t) (timers s))"
        using length_filter_less [of tm "filter (\<lambda>tm. due tm \<le> t) (timers s)"
            "\<lambda>x. tid x \<noteq> tid tm"]
        by simp
      from less.hyps [OF this r1 q1]
      obtain s' where s': "advance e t ?f = Some s'" "reachable s'" "quiet T s'"
        "now s' = max (now ?f) t" "\<forall>tm \<in> set (timers s'). t < due tm"
        "absent sid ?f \<longrightarrow>
           absent sid s' \<and> ready_times sid (trace s') = ready_times sid (trace ?f)"
        "ready sid ?f \<longrightarrow>
           ready sid s' \<and> ready_times sid (trace s') = ready_times sid (trace ?f)"
        "\<forall>d. waiting sid d ?f \<longrightarrow>
           (if d \<le> t
            then ready sid s' \<and>
                 ready_times sid (trace s') = ready_times sid (trace ?f) @ [d]
            else waiting sid d s' \<and>
                 ready_times sid (trace s') = ready_times sid (trace ?f))"
        by blast
      note ph = fire_phase [OF t Some cb, where e = e and sid = sid]
      have a: "advance e t s = Some s'"
        using advance_fire [OF Some True, of e] s'(1) by simp
      have n: "now s' = max (now s) t" using s'(4) True by (simp add: f(3))
      have 1: "absent sid s \<longrightarrow>
                 absent sid s' \<and> ready_times sid (trace s') = ready_times sid (trace s)"
        using ph(1) s'(6) by simp
      have 2: "ready sid s \<longrightarrow>
                 ready sid s' \<and> ready_times sid (trace s') = ready_times sid (trace s)"
        using ph(2) s'(7) by simp
      have 3: "if d \<le> t
               then ready sid s' \<and>
                    ready_times sid (trace s') = ready_times sid (trace s) @ [d]
               else waiting sid d s' \<and>
                    ready_times sid (trace s') = ready_times sid (trace s)"
        if w: "waiting sid d s" for d
      proof -
        from ph(3) [OF w] show ?thesis
        proof
          assume x: "due tm = d \<and> ready sid ?f \<and>
                     ready_times sid (trace ?f) = ready_times sid (trace s) @ [d]"
          then show ?thesis using s'(7) True by simp
        next
          assume x: "waiting sid d ?f \<and>
                     ready_times sid (trace ?f) = ready_times sid (trace s)"
          then show ?thesis using s'(8) [rule_format, of d] by (cases "d \<le> t") simp_all
        qed
      qed
      show ?thesis using a s'(2,3,5) n 1 2 3 by blast
    qed
  qed
qed


text \<open>A track arrives.\<close>

lemma track_none: "streams ev = [] \<Longrightarrow> handleIncomingTrack ev s = s"
  by (simp add: handleIncomingTrack_def)

lemma track_new:
  assumes "streams ev = st # rest" "map_of (streamTracking s) st = None"
  shows "timers (handleIncomingTrack ev s) =
           timers s @ [\<lparr> tid = nextTimer s, due = now s + 1000,
                         callback = TrackDebounce (nextInfo s) \<rparr>]"
    and "streamTracking (handleIncomingTrack ev s) = streamTracking s @ [(st, nextInfo s)]"
    and "x \<noteq> nextInfo s \<Longrightarrow> infos (handleIncomingTrack ev s) x = infos s x"
    and "\<not> emitted (infos (handleIncomingTrack ev s) (nextInfo s))"
    and "now (handleIncomingTrack ev s) = now s"
    and "ready_times sid (trace (handleIncomingTrack ev s)) = ready_times sid (trace s)"
  using assms
  by (simp_all add: handleIncomingTrack_def get_or_create_def update_info_def fresh_info_def
      base_defs)

lemma track_old:
  assumes "streams ev = st # rest" "map_of (streamTracking s) st = Some a"
  shows "timers (handleIncomingTrack ev s) =
           filter (\<lambda>x. tid x \<notin> set (handle_of (timeoutId (infos s a)))) (timers s)
           @ [\<lparr> tid = nextTimer s, due = now s + 1000, callback = TrackDebounce a \<rparr>]"
    and "streamTracking (handleIncomingTrack ev s) = streamTracking s"
    and "x \<noteq> a \<Longrightarrow> infos (handleIncomingTrack ev s) x = infos s x"
    and "emitted (infos (handleIncomingTrack ev s) a) = emitted (infos s a)"
    and "now (handleIncomingTrack ev s) = now s"
    and "ready_times sid (trace (handleIncomingTrack ev s)) = ready_times sid (trace s)"
  using assms
  by (simp_all add: handleIncomingTrack_def get_or_create_def update_info_def handle_of_def
      base_defs)

lemma track_quiet:
  assumes "quiet T s"
  shows "quiet T (handleIncomingTrack ev s)"
proof (cases "streams ev")
  case Nil
  then show ?thesis using assms by (simp add: track_none)
next
  case (Cons st rest)
  show ?thesis
  proof (cases "map_of (streamTracking s) st")
    case None
    show ?thesis
      using assms by (simp add: quiet_iff track_new(1) [OF Cons None] is_debounce_def)
  next
    case (Some a)
    show ?thesis
      using assms by (auto simp: quiet_iff track_old(1) [OF Cons Some] is_debounce_def)
  qed
qed

lemma track_trace:
  "ready_times sid (trace (handleIncomingTrack ev s)) = ready_times sid (trace s)"
    "now (handleIncomingTrack ev s) = now s"
proof -
  show "ready_times sid (trace (handleIncomingTrack ev s)) = ready_times sid (trace s)"
  proof (cases "streams ev")
    case Nil
    then show ?thesis by (simp add: track_none)
  next
    case (Cons st rest)
    then show ?thesis
      by (cases "map_of (streamTracking s) st") (simp_all add: track_new(6) track_old(6))
  qed
  show "now (handleIncomingTrack ev s) = now s"
  proof (cases "streams ev")
    case Nil
    then show ?thesis by (simp add: track_none)
  next
    case (Cons st rest)
    then show ?thesis
      by (cases "map_of (streamTracking s) st") (simp_all add: track_new(5) track_old(5))
  qed
qed

lemma track_own:
  assumes "stream_of ev = Some sid"
  shows "absent sid s \<or> waiting sid d s \<Longrightarrow> waiting sid (now s + 1000) (handleIncomingTrack ev s)"
    and "ready sid s \<Longrightarrow> ready sid (handleIncomingTrack ev s)"
proof -
  obtain rest where ev: "streams ev = sid # rest"
    using assms by (auto simp: stream_of_def split: list.splits)
  {
    assume "absent sid s \<or> waiting sid d s"
    then show "waiting sid (now s + 1000) (handleIncomingTrack ev s)"
    proof
      assume "absent sid s"
      then have n: "map_of (streamTracking s) sid = None" by (simp add: absent_def)
      note f = track_new [OF ev n]
      have "map_of (streamTracking (handleIncomingTrack ev s)) sid = Some (nextInfo s)"
        using n by (simp add: f(2) map_add_def)
      then show ?thesis
        unfolding waiting_iff using f(4) by (simp add: f(1,5))
    next
      assume "waiting sid d s"
      then obtain a where a: "map_of (streamTracking s) sid = Some a" "\<not> emitted (infos s a)"
        by (auto simp: waiting_iff)
      note f = track_old [OF ev a(1)]
      show ?thesis
        unfolding waiting_iff using a f(4) by (simp add: f(1,2,5))
    qed
  next
    assume "ready sid s"
    then obtain a where a: "map_of (streamTracking s) sid = Some a" "emitted (infos s a)"
      by (auto simp: ready_iff)
    note f = track_old [OF ev a(1)]
    show "ready sid (handleIncomingTrack ev s)"
      unfolding ready_iff using a f(4) by (simp add: f(2))
  }
qed

lemma track_other:
  assumes "tidy s" "stream_of ev \<noteq> Some sid"
  shows "absent sid s \<Longrightarrow> absent sid (handleIncomingTrack ev s)"
    and "ready sid s \<Longrightarrow> ready sid (handleIncomingTrack ev s)"
    and "waiting sid d s \<Longrightarrow> waiting sid d (handleIncomingTrack ev s)"
proof -
  let ?r = "handleIncomingTrack ev s"
  have same: "streamTracking ?r = streamTracking s \<or>
              (\<exists>st. st \<noteq> sid \<and> streamTracking ?r = streamTracking s @ [(st, nextInfo s)])"
  proof (cases "streams ev")
    case Nil
    then show ?thesis by (simp add: track_none)
  next
    case (Cons st rest)
    then have "st \<noteq> sid" using assms(2) by (simp add: stream_of_def)
    then show ?thesis
      using Cons
      by (cases "map_of (streamTracking s) st") (auto simp: track_new(2) track_old(2))
  qed
  have keep: "map_of (streamTracking ?r) sid = map_of (streamTracking s) sid"
    using same by (auto simp: map_add_def split: option.splits)
  have obj: "infos ?r a = infos s a \<and>
             (\<forall>tm \<in> set (timers s). callback tm = TrackDebounce a \<longrightarrow> tm \<in> set (timers ?r))"
    if a: "map_of (streamTracking s) sid = Some a" for a
  proof (cases "streams ev")
    case Nil
    then show ?thesis by (simp add: track_none)
  next
    case (Cons st rest)
    then have ne: "st \<noteq> sid" using assms(2) by (simp add: stream_of_def)
    note e = entry_facts [OF assms(1) a]
    show ?thesis
    proof (cases "map_of (streamTracking s) st")
      case None
      note f = track_new [OF Cons None]
      show ?thesis using e(3) f(3) [of a] by (simp add: f(1))
    next
      case (Some a1)
      note f = track_old [OF Cons Some]
      note e1 = entry_facts [OF assms(1) Some]
      have d: "a \<noteq> a1" using e(2) e1(2) ne by auto
      have "tid tm \<notin> set (handle_of (timeoutId (infos s a1)))"
        if tm: "tm \<in> set (timers s)" and c: "callback tm = TrackDebounce a" for tm
      proof
        assume "tid tm \<in> set (handle_of (timeoutId (infos s a1)))"
        then have "timeoutId (infos s a1) = Some (tid tm)"
          by (auto simp: handle_of_def truthy_id_def split: if_splits option.splits)
        then have "callback tm = TrackDebounce a1"
          using assms(1) tm e1(1) by (fastforce simp: tidy_iff)
        then show False using c d by simp
      qed
      then show ?thesis using d f(3) [of a] by (simp add: f(1))
    qed
  qed
  show "absent sid s \<Longrightarrow> absent sid ?r" by (simp add: absent_def keep)
  show "ready sid s \<Longrightarrow> ready sid ?r"
    using obj by (auto simp: ready_iff keep)
  show "waiting sid d s \<Longrightarrow> waiting sid d ?r"
    unfolding waiting_iff keep track_trace(2) using obj by fastforce
qed


text \<open>Tracks arrive, of this stream and of others.\<close>

lemma settle_early: "(\<forall>x \<in> set ts. d \<le> x) \<Longrightarrow> settle d ts = d"
  by (cases ts) simp_all

lemma arrivals_simps [simp]:
  "arrivals sid [] = []"
  "arrivals sid ((t, ev) # xs) =
     (if stream_of ev = Some sid then t # arrivals sid xs else arrivals sid xs)"
  by (simp_all add: arrivals_def)

lemma arrivals_times: "x \<in> set (arrivals sid xs) \<Longrightarrow> x \<in> fst ` set xs"
  by (auto simp: arrivals_def)

lemma run_tracks_phase:
  assumes "reachable s" "quiet T s" "sorted (map fst xs)"
    "\<forall>x \<in> set xs. now s \<le> fst x \<and> fst x \<le> T"
  shows "\<exists>s'. run_tracks e xs T s = Some s' \<and>
     (ready sid s \<longrightarrow> ready_times sid (trace s') = ready_times sid (trace s)) \<and>
     (absent sid s \<and> arrivals sid xs = [] \<longrightarrow>
        ready_times sid (trace s') = ready_times sid (trace s)) \<and>
     (\<forall>t1 rest. absent sid s \<and> arrivals sid xs = t1 # rest \<and> last (t1 # rest) + 1000 \<le> T \<longrightarrow>
        ready_times sid (trace s') = ready_times sid (trace s) @ [settle (t1 + 1000) rest]) \<and>
     (\<forall>d. waiting sid d s \<and>
          (if arrivals sid xs = [] then d else last (arrivals sid xs) + 1000) \<le> T \<longrightarrow>
        ready_times sid (trace s') =
          ready_times sid (trace s) @ [settle d (arrivals sid xs)])"
  using assms
proof (induction xs arbitrary: s)
  case Nil
  from advance_debounce [OF Nil(1,2) order_refl, of e sid]
  obtain s' where s': "advance e T s = Some s'"
    "absent sid s \<longrightarrow>
       absent sid s' \<and> ready_times sid (trace s') = ready_times sid (trace s)"
    "ready sid s \<longrightarrow>
       ready sid s' \<and> ready_times sid (trace s') = ready_times sid (trace s)"
    "\<forall>d. waiting sid d s \<longrightarrow>
       (if d \<le> T
        then ready sid s' \<and>
             ready_times sid (trace s') = ready_times sid (trace s) @ [d]
        else waiting sid d s' \<and>
             ready_times sid (trace s') = ready_times sid (trace s))"
    by blast
  have "ready_times sid (trace s') = ready_times sid (trace s) @ [d]"
    if "waiting sid d s" "d \<le> T" for d
    using s'(4) [rule_format, OF that(1)] that(2) by simp
  then show ?case using s'(1,2,3) by simp
next
  case (Cons x xs)
  obtain t ev where x: "x = (t, ev)" by (cases x)
  let ?ts = "arrivals sid xs"
  have b: "now s \<le> t" "t \<le> T" using Cons.prems(4) x by simp_all
  from advance_debounce [OF Cons.prems(1,2) b(2), of e sid]
  obtain s0 where s0: "advance e t s = Some s0" "reachable s0" "quiet T s0"
    "now s0 = max (now s) t"
    "absent sid s \<longrightarrow>
       absent sid s0 \<and> ready_times sid (trace s0) = ready_times sid (trace s)"
    "ready sid s \<longrightarrow>
       ready sid s0 \<and> ready_times sid (trace s0) = ready_times sid (trace s)"
    "\<forall>d. waiting sid d s \<longrightarrow>
       (if d \<le> t
        then ready sid s0 \<and>
             ready_times sid (trace s0) = ready_times sid (trace s) @ [d]
        else waiting sid d s0 \<and>
             ready_times sid (trace s0) = ready_times sid (trace s))"
    by blast
  let ?s1 = "handleIncomingTrack ev s0"
  have n0: "now s0 = t" using s0(4) b(1) by simp
  have t0: "tidy s0" using s0(2) by (rule reachable_tidy)
  have r1: "reachable ?s1" using s0(2) by (rule r_handleIncomingTrack)
  have q1: "quiet T ?s1" using s0(3) by (rule track_quiet)
  have n1: "now ?s1 = t" using n0 by (simp add: track_trace(2))
  have tr1: "ready_times sid (trace ?s1) = ready_times sid (trace s0)"
    by (rule track_trace(1))
  have later: "t \<le> fst y" if "y \<in> set xs" for y
    using Cons.prems(3) that x by auto
  have so: "sorted (map fst xs)" using Cons.prems(3) by simp
  have bd: "\<forall>y \<in> set xs. now ?s1 \<le> fst y \<and> fst y \<le> T"
    using later Cons.prems(4) n1 by auto
  from Cons.IH [OF r1 q1 so bd]
  obtain s' where s': "run_tracks e xs T ?s1 = Some s'"
    "ready sid ?s1 \<longrightarrow> ready_times sid (trace s') = ready_times sid (trace ?s1)"
    "absent sid ?s1 \<and> ?ts = [] \<longrightarrow>
       ready_times sid (trace s') = ready_times sid (trace ?s1)"
    "\<forall>t1 rest. absent sid ?s1 \<and> ?ts = t1 # rest \<and> last (t1 # rest) + 1000 \<le> T \<longrightarrow>
       ready_times sid (trace s') = ready_times sid (trace ?s1) @ [settle (t1 + 1000) rest]"
    "\<forall>d. waiting sid d ?s1 \<and> (if ?ts = [] then d else last ?ts + 1000) \<le> T \<longrightarrow>
       ready_times sid (trace s') = ready_times sid (trace ?s1) @ [settle d ?ts]"
    by blast
  have run: "run_tracks e (x # xs) T s = Some s'"
    using s0(1) s'(1) by (simp add: x)
  have still: "ready sid s0 \<Longrightarrow> ready_times sid (trace s') = ready_times sid (trace s0)"
    using s'(2) tr1 track_own(2) [of ev sid s0] track_other(2) [OF t0, of ev sid]
    by (cases "stream_of ev = Some sid") auto
  have 1: "ready sid s \<longrightarrow> ready_times sid (trace s') = ready_times sid (trace s)"
    using s0(6) still by auto
  show ?case
  proof (cases "stream_of ev = Some sid")
    case True
    have arr: "arrivals sid (x # xs) = t # ?ts" using True by (simp add: x)
    have armed: "absent sid s0 \<or> waiting sid d s0 \<Longrightarrow> waiting sid (t + 1000) ?s1" for d
      using track_own(1) [OF True, of s0 d] n0 by simp
    have fin: "ready_times sid (trace s') = ready_times sid (trace s0) @ [settle (t + 1000) ?ts]"
      if "waiting sid (t + 1000) ?s1" "last (t # ?ts) + 1000 \<le> T"
      using s'(5) [rule_format, of "t + 1000"] that tr1 by (auto split: if_splits)
    have 3: "ready_times sid (trace s') =
               ready_times sid (trace s) @ [settle (t1 + 1000) rest]"
      if "absent sid s" "arrivals sid (x # xs) = t1 # rest" "last (t1 # rest) + 1000 \<le> T"
      for t1 rest
    proof -
      have e: "t1 = t" "rest = ?ts" using that(2) arr by simp_all
      have "absent sid s0" "ready_times sid (trace s0) = ready_times sid (trace s)"
        using s0(5) that(1) by simp_all
      then show ?thesis using fin armed [of 0] that(3) e by simp
    qed
    have 4: "ready_times sid (trace s') =
               ready_times sid (trace s) @ [settle d (arrivals sid (x # xs))]"
      if "waiting sid d s" "last (arrivals sid (x # xs)) + 1000 \<le> T" for d
    proof (cases "d \<le> t")
      case le: True
      then have "ready sid s0" "ready_times sid (trace s0) = ready_times sid (trace s) @ [d]"
        using s0(7) [rule_format, OF that(1)] by simp_all
      then show ?thesis using still le arr by simp
    next
      case gt: False
      then have "waiting sid d s0" "ready_times sid (trace s0) = ready_times sid (trace s)"
        using s0(7) [rule_format, OF that(1)] by simp_all
      then show ?thesis using fin armed [of d] that(2) gt arr by simp
    qed
    show ?thesis using run 1 3 4 arr by auto
  next
    case False
    have arr: "arrivals sid (x # xs) = ?ts" using False by (simp add: x)
    have 2: "ready_times sid (trace s') = ready_times sid (trace s)"
      if "absent sid s" "?ts = []"
      using that s0(5) track_other(1) [OF t0 False] s'(3) tr1 by simp
    have 3: "ready_times sid (trace s') =
               ready_times sid (trace s) @ [settle (t1 + 1000) rest]"
      if "absent sid s" "?ts = t1 # rest" "last (t1 # rest) + 1000 \<le> T" for t1 rest
      using that s0(5) track_other(1) [OF t0 False] s'(4) tr1 by simp
    have 4: "ready_times sid (trace s') = ready_times sid (trace s) @ [settle d ?ts]"
      if "waiting sid d s" "(if ?ts = [] then d else last ?ts + 1000) \<le> T" for d
    proof (cases "d \<le> t")
      case le: True
      then have "ready sid s0" "ready_times sid (trace s0) = ready_times sid (trace s) @ [d]"
        using s0(7) [rule_format, OF that(1)] by simp_all
      moreover have "settle d ?ts = d"
      proof (rule settle_early, rule ballI)
        fix y assume "y \<in> set ?ts"
        then have "y \<in> fst ` set xs" by (rule arrivals_times)
        then show "d \<le> y" using later le by fastforce
      qed
      ultimately show ?thesis using still by simp
    next
      case gt: False
      then have "waiting sid d s0" "ready_times sid (trace s0) = ready_times sid (trace s)"
        using s0(7) [rule_format, OF that(1)] by simp_all
      then show ?thesis
        using track_other(3) [OF t0 False, of d] s'(5) [rule_format, of d] that(2) tr1 by simp
    qed
    show ?thesis using run 1 2 3 4 arr by auto
  qed
qed


text \<open>
  Claim C6. Take any reachable state and any schedule of track arrivals, of any number of
  streams, in the order of their times, none before the clock of the state and none after
  \<open>T\<close>, such that no timer other than debounce timers falls due up to \<open>T\<close> (so nothing
  tears the session down in between). Then the run ends, and for every stream identifier
  the \<open>remoteStream\<close> events of that stream in its trace are those of the start and:
  for a stream with no tracking entry at the start, none if no track of it arrives; exactly
  one, stamped \<open>t1 + 1000\<close>, if one track of it arrives, at \<open>t1\<close>, of whatever kind;
  exactly one, stamped \<open>t2 + 1000\<close>, if two arrive, at \<open>t1\<close> and at \<open>t2 < t1 + 1000\<close>;
  and in general exactly one, stamped with the due time of the first timer that no further
  track of the stream precedes. For a stream whose debounce timer is pending at the start,
  exactly one, stamped likewise. For a stream whose event was emitted before, none,
  whatever tracks of it arrive. This holds for all streams of the one run, whatever the tracks of
  the other streams do in the meantime; it needs \<open>T\<close> to be 1000 ms after the last arrival
  of the stream, at least.
\<close>

theorem debounced_stream_ready:
  assumes "reachable s" and "quiet T s" and "sorted (map fst xs)"
    and "\<forall>x \<in> set xs. now s \<le> fst x \<and> fst x \<le> T"
  shows "\<exists>s'. run_tracks e xs T s = Some s' \<and>
     (\<forall>sid. map_of (streamTracking s) sid = None \<longrightarrow>
        (arrivals sid xs = [] \<longrightarrow>
           ready_times sid (trace s') = ready_times sid (trace s)) \<and>
        (\<forall>t1. arrivals sid xs = [t1] \<and> t1 + 1000 \<le> T \<longrightarrow>
           ready_times sid (trace s') = ready_times sid (trace s) @ [t1 + 1000]) \<and>
        (\<forall>t1 t2. arrivals sid xs = [t1, t2] \<and> t2 < t1 + 1000 \<and> t2 + 1000 \<le> T \<longrightarrow>
           ready_times sid (trace s') = ready_times sid (trace s) @ [t2 + 1000]) \<and>
        (\<forall>t1 rest. arrivals sid xs = t1 # rest \<and> last (t1 # rest) + 1000 \<le> T \<longrightarrow>
           ready_times sid (trace s') =
             ready_times sid (trace s) @ [settle (t1 + 1000) rest])) \<and>
     (\<forall>sid d. waiting sid d s \<and>
          (if arrivals sid xs = [] then d else last (arrivals sid xs) + 1000) \<le> T \<longrightarrow>
        ready_times sid (trace s') =
          ready_times sid (trace s) @ [settle d (arrivals sid xs)]) \<and>
     (\<forall>sid. ready sid s \<longrightarrow> ready_times sid (trace s') = ready_times sid (trace s))"
proof -
  note ph = run_tracks_phase [OF assms, of e]
  from ph [of "[]"] obtain s' where run: "run_tracks e xs T s = Some s'" by blast
  have r: "ready_times sid (trace s') = ready_times sid (trace s)" if "ready sid s" for sid
    using ph [of sid] run that by auto
  have w: "ready_times sid (trace s') =
             ready_times sid (trace s) @ [settle d (arrivals sid xs)]"
    if "waiting sid d s" "(if arrivals sid xs = [] then d else last (arrivals sid xs) + 1000) \<le> T"
    for sid d
    using ph [of sid] run that by auto
  have a0: "ready_times sid (trace s') = ready_times sid (trace s)"
    if "map_of (streamTracking s) sid = None" "arrivals sid xs = []" for sid
    using ph [of sid] run that by (auto simp: absent_def)
  have a: "ready_times sid (trace s') =
             ready_times sid (trace s) @ [settle (t1 + 1000) rest]"
    if "map_of (streamTracking s) sid = None" "arrivals sid xs = t1 # rest"
      "last (t1 # rest) + 1000 \<le> T" for sid t1 rest
  proof -
    from ph [of sid] run
    have "\<forall>t1 rest. absent sid s \<and> arrivals sid xs = t1 # rest \<and>
            last (t1 # rest) + 1000 \<le> T \<longrightarrow>
          ready_times sid (trace s') =
            ready_times sid (trace s) @ [settle (t1 + 1000) rest]"
      by auto
    then show ?thesis using that by (simp add: absent_def)
  qed
  have a1: "ready_times sid (trace s') = ready_times sid (trace s) @ [t1 + 1000]"
    if "map_of (streamTracking s) sid = None" "arrivals sid xs = [t1]" "t1 + 1000 \<le> T"
    for sid t1
    using a [OF that(1,2)] that(3) by simp
  have a2: "ready_times sid (trace s') = ready_times sid (trace s) @ [t2 + 1000]"
    if "map_of (streamTracking s) sid = None" "arrivals sid xs = [t1, t2]"
      "t2 < t1 + 1000" "t2 + 1000 \<le> T" for sid t1 t2
    using a [OF that(1,2)] that(3,4) by simp
  show ?thesis
    using run r w a0 a a1 a2 by blast
qed


lemma debouncing_eq:
  "timers debouncing = [\<lparr> tid = 1, due = 1000, callback = TrackDebounce 0 \<rparr>]"
  "streamTracking debouncing = [(''stream-1'', 0)]"
  "\<not> emitted (infos debouncing 0)"
  "now debouncing = 0"
  "ready_times sid (trace debouncing) = []"
  by (simp_all add: debouncing_def an_audio_track_def in_call_eq constructor_def run_defs)

lemma debouncing_reachable: "reachable debouncing"
  unfolding debouncing_def by (rule r_browser_track, rule in_call_reachable)

lemma three_streams_arrivals:
  "arrivals ''stream-1'' three_streams = []"
  "arrivals ''stream-2'' three_streams = [300]"
  "arrivals ''stream-3'' three_streams = [600, 900]"
  by (simp_all add: three_streams_def track_of_def stream_of_def)

text \<open>The run of the three streams, evaluated.\<close>

lemma three_streams_run:
  "map_option trace (run_tracks accepting three_streams 5000 debouncing) =
     Some [(0, RtcNew 0 stun_config),
           (0, SetTimeout 1 1000 (TrackDebounce 0)),
           (300, SetTimeout 2 1000 (TrackDebounce 1)),
           (600, SetTimeout 3 1000 (TrackDebounce 2)),
           (900, ClearTimeout 3),
           (900, SetTimeout 4 1000 (TrackDebounce 2)),
           (1000, Emit (RemoteStream ''stream-1'')),
           (1300, Emit (RemoteStream ''stream-2'')),
           (1900, Emit (RemoteStream ''stream-3''))]"
proof -
  have four: "(4::nat) = Suc (Suc (Suc (Suc 0)))" by simp
  show ?thesis
    by (simp add: three_streams_def debouncing_def track_of_def an_audio_track_def in_call_eq
        constructor_def run_defs advance.simps fire_def run_callback_def debounce_fired_def
        numeral_2_eq_2 numeral_3_eq_3 four)
qed

theorem debounced_stream_ready_witness:
  "reachable debouncing \<and> quiet 5000 debouncing \<and> now debouncing = 0 \<and>
   map fst three_streams = [300, 600, 900] \<and>
   waiting ''stream-1'' 1000 debouncing \<and> arrivals ''stream-1'' three_streams = [] \<and>
   map_of (streamTracking debouncing) ''stream-2'' = None \<and>
   arrivals ''stream-2'' three_streams = [300] \<and>
   map_of (streamTracking debouncing) ''stream-3'' = None \<and>
   arrivals ''stream-3'' three_streams = [600, 900] \<and>
   (\<exists>s'. run_tracks accepting three_streams 5000 debouncing = Some s' \<and>
         ready_times ''stream-1'' (trace s') = [1000] \<and>
         ready_times ''stream-2'' (trace s') = [1300] \<and>
         ready_times ''stream-3'' (trace s') = [1900] \<and>
         trace s' =
           [(0, RtcNew 0 stun_config),
            (0, SetTimeout 1 1000 (TrackDebounce 0)),
            (300, SetTimeout 2 1000 (TrackDebounce 1)),
            (600, SetTimeout 3 1000 (TrackDebounce 2)),
            (900, ClearTimeout 3),
            (900, SetTimeout 4 1000 (TrackDebounce 2)),
            (1000, Emit (RemoteStream ''stream-1'')),
            (1300, Emit (RemoteStream ''stream-2'')),
            (1900, Emit (RemoteStream ''stream-3''))])"
proof -
  have q: "quiet 5000 debouncing"
    by (simp add: quiet_def debouncing_eq is_debounce_def)
  have w: "waiting ''stream-1'' 1000 debouncing"
    by (simp add: waiting_def debouncing_eq)
  have n: "map_of (streamTracking debouncing) ''stream-2'' = None"
    "map_of (streamTracking debouncing) ''stream-3'' = None"
    by (simp_all add: debouncing_eq)
  have m: "map fst three_streams = [300, 600, 900]"
    by (simp add: three_streams_def)
  have b: "\<forall>x \<in> set three_streams. now debouncing \<le> fst x \<and> fst x \<le> 5000"
    by (simp add: three_streams_def debouncing_eq)
  have so: "sorted (map fst three_streams)" by (simp add: m)
  from debounced_stream_ready [OF debouncing_reachable q so b, of accepting]
  obtain s' where all: "run_tracks accepting three_streams 5000 debouncing = Some s' \<and>
     (\<forall>sid. map_of (streamTracking debouncing) sid = None \<longrightarrow>
        (arrivals sid three_streams = [] \<longrightarrow>
           ready_times sid (trace s') = ready_times sid (trace debouncing)) \<and>
        (\<forall>t1. arrivals sid three_streams = [t1] \<and> t1 + 1000 \<le> 5000 \<longrightarrow>
           ready_times sid (trace s') = ready_times sid (trace debouncing) @ [t1 + 1000]) \<and>
        (\<forall>t1 t2. arrivals sid three_streams = [t1, t2] \<and> t2 < t1 + 1000 \<and>
                  t2 + 1000 \<le> 5000 \<longrightarrow>
           ready_times sid (trace s') = ready_times sid (trace debouncing) @ [t2 + 1000]) \<and>
        (\<forall>t1 rest. arrivals sid three_streams = t1 # rest \<and>
                    last (t1 # rest) + 1000 \<le> 5000 \<longrightarrow>
           ready_times sid (trace s') =
             ready_times sid (trace debouncing) @ [settle (t1 + 1000) rest])) \<and>
     (\<forall>sid d. waiting sid d debouncing \<and>
          (if arrivals sid three_streams = [] then d
           else last (arrivals sid three_streams) + 1000) \<le> 5000 \<longrightarrow>
        ready_times sid (trace s') =
          ready_times sid (trace debouncing) @ [settle d (arrivals sid three_streams)]) \<and>
     (\<forall>sid. ready sid debouncing \<longrightarrow>
        ready_times sid (trace s') = ready_times sid (trace debouncing))"
    by (rule exE)
  note run = all [THEN conjunct1]
  note fresh = all [THEN conjunct2, THEN conjunct1, rule_format]
  note pending = all [THEN conjunct2, THEN conjunct2, THEN conjunct1, rule_format]
  have 1: "ready_times ''stream-1'' (trace s') = [1000]"
    using pending [of "''stream-1''" 1000] w
    by (simp add: three_streams_arrivals debouncing_eq)
  have 2: "ready_times ''stream-2'' (trace s') = [1300]"
    using fresh [OF n(1), THEN conjunct2, THEN conjunct1, rule_format, of 300]
    by (simp add: three_streams_arrivals debouncing_eq)
  have 3: "ready_times ''stream-3'' (trace s') = [1900]"
    using fresh [OF n(2), THEN conjunct2, THEN conjunct2, THEN conjunct1, rule_format, of 600 900]
    by (simp add: three_streams_arrivals debouncing_eq)
  have 4: "trace s' =
           [(0, RtcNew 0 stun_config),
            (0, SetTimeout 1 1000 (TrackDebounce 0)),
            (300, SetTimeout 2 1000 (TrackDebounce 1)),
            (600, SetTimeout 3 1000 (TrackDebounce 2)),
            (900, ClearTimeout 3),
            (900, SetTimeout 4 1000 (TrackDebounce 2)),
            (1000, Emit (RemoteStream ''stream-1'')),
            (1300, Emit (RemoteStream ''stream-2'')),
            (1900, Emit (RemoteStream ''stream-3''))]"
    using three_streams_run run by simp
  show ?thesis
    using debouncing_reachable q w n m run 1 2 3 4
    by (simp add: three_streams_arrivals debouncing_eq)
qed


end
